theory Spec2Isabelle
  imports Complex_Main "HOL-Library.Sublist" "HOL-Library.Option_ord" "HOL-Library.Multiset"
begin

section \<open>Data model (types/message.types.ts, types/citation.types.ts, types/api.types.ts)\<close>

text \<open>
  JavaScript values are modelled by typed HOL values. An optional property is an
  \<open>option\<close> (\<open>None\<close> is \<open>undefined\<close>). Counts and millisecond values are
  \<open>int\<close>; relevance scores are finite numbers, modelled as \<open>real\<close>.
\<close>

datatype role = User | Assistant | System

datatype status = Sending | Sent | Streaming | Completed | Errored

text \<open>
  A \<open>Date\<close> object holds a time value in milliseconds since the epoch, or is the
  invalid date. A message's \<open>timestamp\<close> property holds a \<open>Date\<close> object when
  the message was made by the running program, and whatever \<open>JSON.parse\<close> left there
  when the message came out of an imported document: the ISO string that
  \<open>Date.prototype.toJSON\<close> wrote for a valid date (\<open>IsoString t\<close> stands for the
  ISO-8601 text of time value \<open>t\<close>), or \<open>null\<close>, which is what an invalid date
  serialises to.
\<close>

datatype jsdate = Date int | InvalidDate

datatype timestamp = DateObj jsdate | IsoString int | JsonNull

record citation =
  cit_id :: string
  source_file_id :: string
  source_file_url :: string
  source_file_name :: string
  content_snippet :: string
  relevance_score :: "real option"
  page_number :: "int option"

record citation_group =
  g_source_file_id :: string
  g_source_file_url :: string
  g_source_file_name :: string
  g_citations :: "citation list"
  g_total_chunks :: nat

record message =
  msg_id :: string
  role :: role
  content :: string
  timestamp :: timestamp
  status :: status
  isStreaming :: "bool option"
  citations :: "citation list option"

record chat_session =
  session_id :: string
  messages :: "message list"
  created_at :: jsdate
  updated_at :: jsdate
  title :: "string option"

text \<open>\<open>WebSocketConfig\<close> as the caller passes it: every option but the url may be absent.\<close>

record websocket_config_in =
  o_url :: string
  o_reconnectAttempts :: "int option"
  o_maxReconnectAttempts :: "int option"
  o_reconnectDelay :: "int option"
  o_reconnectInterval :: "int option"
  o_heartbeatInterval :: "int option"
  o_pingInterval :: "int option"

text \<open>\<open>Required<WebSocketConfig>\<close>: the configuration the client keeps.\<close>

record websocket_config =
  url :: string
  cfg_reconnectAttempts :: int
  maxReconnectAttempts :: int
  reconnectInterval :: int
  reconnectDelay :: int
  pingInterval :: int
  heartbeatInterval :: int

section \<open>WebSocketClient: constructor (services/websocket-client.ts)\<close>

text \<open>
  \<open>x || d\<close> on an optional number: \<open>undefined\<close> and \<open>0\<close> are falsy and give
  the right operand, every other number is kept.
\<close>

definition or_default :: "int option \<Rightarrow> int \<Rightarrow> int" where
  "or_default x d = (case x of None \<Rightarrow> d | Some n \<Rightarrow> (if n = 0 then d else n))"

definition make_config :: "websocket_config_in \<Rightarrow> websocket_config" where
  "make_config config =
     \<lparr> url = o_url config,
       cfg_reconnectAttempts = or_default (o_reconnectAttempts config) 0,
       maxReconnectAttempts = or_default (o_maxReconnectAttempts config) 5,
       reconnectInterval = or_default (o_reconnectInterval config) 3000,
       reconnectDelay = or_default (o_reconnectDelay config) 1000,
       pingInterval = or_default (o_pingInterval config) 30000,
       heartbeatInterval = or_default (o_heartbeatInterval config) 25000 \<rparr>"

section \<open>StateManager (services/state-manager.ts)\<close>

text \<open>
  The clock and the random source are inputs: every operation that reads them takes an
  \<open>env\<close>, holding the value of \<open>Date.now()\<close> (also the time value of
  \<open>new Date()\<close>; the clock is taken not to tick inside one operation) and the text
  of \<open>Math.random().toString(36).substr(2)\<close>.
\<close>

record env =
  now :: int
  rnd :: string

definition digit36 :: "nat \<Rightarrow> char" where
  "digit36 d = ''0123456789abcdefghijklmnopqrstuvwxyz'' ! d"

fun toString36_nat :: "nat \<Rightarrow> string" where
  "toString36_nat n =
     (if n < 36 then [digit36 n] else toString36_nat (n div 36) @ [digit36 (n mod 36)])"

declare toString36_nat.simps [simp del]

definition toString36 :: "int \<Rightarrow> string" where
  "toString36 n = (if n < 0 then CHR ''-'' # toString36_nat (nat (- n)) else toString36_nat (nat n))"

definition generateSessionId :: "env \<Rightarrow> string" where
  "generateSessionId e = ''session_'' @ toString36 (now e) @ rnd e"

definition generateMessageId :: "env \<Rightarrow> string" where
  "generateMessageId e = ''msg_'' @ toString36 (now e) @ rnd e"

datatype connection_state = Connecting | Connected | Disconnected

text \<open>
  \<open>emit\<close> calls the listeners registered for the event; they are callbacks of the
  caller, and the model records the emitted events, oldest first, in place of running them.
\<close>

datatype store_event =
    SessionCreated chat_session
  | MessageAdded message
  | MessageUpdated message
  | CitationsAdded string "citation list"
  | ConnectionStateChanged connection_state
  | SessionCleared chat_session
  | SessionImported chat_session

record state_manager =
  currentSession :: "chat_session option"
  connectionState :: connection_state
  store_emitted :: "store_event list"

definition emit_store :: "store_event \<Rightarrow> state_manager \<Rightarrow> state_manager" where
  "emit_store ev s = s\<lparr>store_emitted := store_emitted s @ [ev]\<rparr>"

definition new_session :: "env \<Rightarrow> chat_session" where
  "new_session e =
     \<lparr> session_id = generateSessionId e, messages = [],
       created_at = Date (now e), updated_at = Date (now e), title = None \<rparr>"

definition initializeSession :: "env \<Rightarrow> state_manager \<Rightarrow> state_manager" where
  "initializeSession e s = s\<lparr>currentSession := Some (new_session e)\<rparr>"

text \<open>The private constructor: no listeners, connection state disconnected, a first session.\<close>

definition new_StateManager :: "env \<Rightarrow> state_manager" where
  "new_StateManager e =
     initializeSession e
       \<lparr> currentSession = None, connectionState = Disconnected, store_emitted = [] \<rparr>"

definition getCurrentSession :: "state_manager \<Rightarrow> chat_session option" where
  "getCurrentSession s = currentSession s"

definition createNewSession :: "env \<Rightarrow> state_manager \<Rightarrow> chat_session \<times> state_manager" where
  "createNewSession e s =
     (let ses = new_session e
      in (ses, emit_store (SessionCreated ses) (s\<lparr>currentSession := Some ses\<rparr>)))"

text \<open>
  \<open>Omit<Message, 'id' | 'timestamp'>\<close>, the argument of \<open>addMessage\<close>; the object
  spread copies its properties, and \<open>id\<close> and \<open>timestamp\<close> are set after it.
\<close>

record new_message =
  n_role :: role
  n_content :: string
  n_status :: status
  n_isStreaming :: "bool option"
  n_citations :: "citation list option"

definition addMessage :: "env \<Rightarrow> new_message \<Rightarrow> state_manager \<Rightarrow> message \<times> state_manager" where
  "addMessage e m s =
     (let s1 = (if currentSession s = None then initializeSession e s else s);
          fullMessage =
            \<lparr> msg_id = generateMessageId e, role = n_role m, content = n_content m,
              timestamp = DateObj (Date (now e)), status = n_status m,
              isStreaming = n_isStreaming m, citations = n_citations m \<rparr>
      in case currentSession s1 of
           None \<Rightarrow> (fullMessage, s1)
         | Some ses \<Rightarrow>
             (fullMessage,
              emit_store (MessageAdded fullMessage)
                (s1\<lparr>currentSession :=
                      Some (ses\<lparr>messages := messages ses @ [fullMessage],
                                updated_at := Date (now e)\<rparr>)\<rparr>)))"

text \<open>\<open>Partial<Message>\<close>: the properties an update carries.\<close>

record message_updates =
  u_id :: "string option"
  u_role :: "role option"
  u_content :: "string option"
  u_timestamp :: "timestamp option"
  u_status :: "status option"
  u_isStreaming :: "bool option"
  u_citations :: "citation list option"

definition no_updates :: message_updates where
  "no_updates = \<lparr> u_id = None, u_role = None, u_content = None, u_timestamp = None,
                   u_status = None, u_isStreaming = None, u_citations = None \<rparr>"

text \<open>The spread \<open>{...message, ...updates}\<close>.\<close>

definition apply_updates :: "message \<Rightarrow> message_updates \<Rightarrow> message" where
  "apply_updates m u =
     \<lparr> msg_id = (case u_id u of None \<Rightarrow> msg_id m | Some v \<Rightarrow> v),
       role = (case u_role u of None \<Rightarrow> role m | Some v \<Rightarrow> v),
       content = (case u_content u of None \<Rightarrow> content m | Some v \<Rightarrow> v),
       timestamp = (case u_timestamp u of None \<Rightarrow> timestamp m | Some v \<Rightarrow> v),
       status = (case u_status u of None \<Rightarrow> status m | Some v \<Rightarrow> v),
       isStreaming = (case u_isStreaming u of None \<Rightarrow> isStreaming m | Some v \<Rightarrow> Some v),
       citations = (case u_citations u of None \<Rightarrow> citations m | Some v \<Rightarrow> Some v) \<rparr>"

text \<open>\<open>Array.prototype.findIndex\<close>; \<open>None\<close> is the result -1.\<close>

fun findIndex :: "('a \<Rightarrow> bool) \<Rightarrow> 'a list \<Rightarrow> nat option" where
  "findIndex P [] = None"
| "findIndex P (x # xs) =
     (if P x then Some 0 else (case findIndex P xs of None \<Rightarrow> None | Some i \<Rightarrow> Some (Suc i)))"

definition updateMessage ::
  "string \<Rightarrow> message_updates \<Rightarrow> state_manager \<Rightarrow> message option \<times> state_manager" where
  "updateMessage messageId updates s =
     (case currentSession s of
        None \<Rightarrow> (None, s)
      | Some ses \<Rightarrow>
          (case findIndex (\<lambda>m. msg_id m = messageId) (messages ses) of
             None \<Rightarrow> (None, s)
           | Some messageIndex \<Rightarrow>
               (let updatedMessage = apply_updates (messages ses ! messageIndex) updates
                in (Some updatedMessage,
                    emit_store (MessageUpdated updatedMessage)
                      (s\<lparr>currentSession :=
                            Some (ses\<lparr>messages := (messages ses)[messageIndex := updatedMessage]\<rparr>)\<rparr>)))))"

definition getMessages :: "state_manager \<Rightarrow> message list" where
  "getMessages s = (case currentSession s of None \<Rightarrow> [] | Some ses \<Rightarrow> messages ses)"

definition getLastMessage :: "state_manager \<Rightarrow> message option" where
  "getLastMessage s =
     (let msgs = getMessages s
      in if length msgs > 0 then Some (msgs ! (length msgs - 1)) else None)"

definition addCitationsToMessage ::
  "string \<Rightarrow> citation list \<Rightarrow> state_manager \<Rightarrow> state_manager" where
  "addCitationsToMessage messageId cits s =
     (case updateMessage messageId (no_updates\<lparr>u_citations := Some cits\<rparr>) s of
        (None, s1) \<Rightarrow> s1
      | (Some message, s1) \<Rightarrow> emit_store (CitationsAdded messageId cits) s1)"

definition setConnectionState :: "connection_state \<Rightarrow> state_manager \<Rightarrow> state_manager" where
  "setConnectionState st s =
     (if connectionState s \<noteq> st
      then emit_store (ConnectionStateChanged st) (s\<lparr>connectionState := st\<rparr>)
      else s)"

definition clearSession :: "state_manager \<Rightarrow> state_manager" where
  "clearSession s =
     (case currentSession s of
        None \<Rightarrow> s
      | Some ses \<Rightarrow>
          (let ses1 = ses\<lparr>messages := []\<rparr>
           in emit_store (SessionCleared ses1) (s\<lparr>currentSession := Some ses1\<rparr>)))"

subsection \<open>exportSession and importSession\<close>

text \<open>
  The text that \<open>exportSession\<close> returns and \<open>importSession\<close> takes is modelled by
  what \<open>JSON.parse\<close> makes of it: text that does not parse, the document \<open>null\<close>,
  or an object, of which the properties of a session are kept; \<open>d_messages\<close> is
  \<open>Some\<close> exactly when \<open>messages\<close> is an array. \<open>JSON.stringify\<close> writes a
  \<open>Date\<close> through \<open>toJSON\<close> (the ISO string, or \<open>null\<close> for the invalid date)
  and leaves out properties that are \<open>undefined\<close>; \<open>JSON.parse\<close> is called
  without a reviver, so it returns strings where dates were written.
\<close>

record session_document =
  d_id :: "string option"
  d_messages :: "message list option"
  d_created_at :: "timestamp option"
  d_updated_at :: "timestamp option"
  d_title :: "string option"

datatype session_data = Unparsable | NullDocument | Document session_document

definition date_toJSON :: "jsdate \<Rightarrow> timestamp" where
  "date_toJSON d = (case d of Date t \<Rightarrow> IsoString t | InvalidDate \<Rightarrow> JsonNull)"

definition timestamp_toJSON :: "timestamp \<Rightarrow> timestamp" where
  "timestamp_toJSON ts = (case ts of DateObj d \<Rightarrow> date_toJSON d | IsoString t \<Rightarrow> IsoString t | JsonNull \<Rightarrow> JsonNull)"

definition message_toJSON :: "message \<Rightarrow> message" where
  "message_toJSON m = m\<lparr>timestamp := timestamp_toJSON (timestamp m)\<rparr>"

text \<open>\<open>new Date(v)\<close> for a property read from a parsed document.\<close>

definition new_Date :: "timestamp option \<Rightarrow> jsdate" where
  "new_Date v =
     (case v of
        None \<Rightarrow> InvalidDate
      | Some (DateObj d) \<Rightarrow> d
      | Some (IsoString t) \<Rightarrow> Date t
      | Some JsonNull \<Rightarrow> Date 0)"

definition exportSession :: "state_manager \<Rightarrow> session_data" where
  "exportSession s =
     (case currentSession s of
        None \<Rightarrow> NullDocument
      | Some ses \<Rightarrow>
          Document
            \<lparr> d_id = Some (session_id ses),
              d_messages = Some (map message_toJSON (messages ses)),
              d_created_at = Some (date_toJSON (created_at ses)),
              d_updated_at = Some (date_toJSON (updated_at ses)),
              d_title = title ses \<rparr>)"

definition importSession :: "session_data \<Rightarrow> state_manager \<Rightarrow> bool \<times> state_manager" where
  "importSession sessionData s =
     (case sessionData of
        Unparsable \<Rightarrow> (False, s)
      | NullDocument \<Rightarrow> (False, s)
      | Document session \<Rightarrow>
          (case (d_id session, d_messages session) of
             (Some i, Some msgs) \<Rightarrow>
               (if i \<noteq> []
                then (let ses = \<lparr> session_id = i, messages = msgs,
                                    created_at = new_Date (d_created_at session),
                                    updated_at = new_Date (d_updated_at session),
                                    title = d_title session \<rparr>
                      in (True, emit_store (SessionImported ses) (s\<lparr>currentSession := Some ses\<rparr>)))
                else (False, s))
           | _ \<Rightarrow> (False, s)))"

section \<open>WebSocketClient (services/websocket-client.ts)\<close>

text \<open>
  The client holds the one StateManager; the model keeps the store's state inside the
  client's. Every WebSocket object that \<open>connect\<close> has made is kept with its
  \<open>readyState\<close>, in the order of creation, since each keeps the handlers \<open>connect\<close>
  gave it; \<open>ws\<close> is the index of the one the client refers to. A timeout set with
  \<open>setTimeout\<close> has a number; \<open>pendingTimers\<close> lists those that have neither fired
  nor been cleared, and \<open>reconnectTimer\<close> is the handle the client holds. The ping
  interval only sends \<open>ping\<close> frames on an open socket and touches none of these
  fields; it is left out.
  An emitted event is recorded by its name and, for the message events, the id of the
  message the client handled; the further properties that the client spreads into the
  payload from the frame's \<open>data\<close> are left out.
\<close>

datatype ready_state = CONNECTING | OPEN | CLOSING | CLOSED

datatype client_event =
    EvConnected
  | EvDisconnected
  | EvError
  | EvMaxReconnectAttemptsReached
  | EvMessage
  | EvMessageStart string
  | EvMessageChunk string "string option"
  | EvMessageComplete string
  | EvCitations
  | EvServerError

record ws_client =
  config :: websocket_config
  stateManager :: state_manager
  sockets :: "ready_state list"
  ws :: "nat option"
  reconnectTimer :: "nat option"
  pendingTimers :: "nat list"
  timersSet :: nat
  reconnectAttempts :: int
  isIntentionallyClosed :: bool
  emitted :: "client_event list"

definition emit_client :: "client_event \<Rightarrow> ws_client \<Rightarrow> ws_client" where
  "emit_client ev c = c\<lparr>emitted := emitted c @ [ev]\<rparr>"

definition new_WebSocketClient :: "websocket_config_in \<Rightarrow> state_manager \<Rightarrow> ws_client" where
  "new_WebSocketClient cfg sm =
     \<lparr> config = make_config cfg, stateManager = sm, sockets = [], ws = None,
       reconnectTimer = None, pendingTimers = [], timersSet = 0,
       reconnectAttempts = 0, isIntentionallyClosed = False, emitted = [] \<rparr>"

subsection \<open>Inbound frames\<close>

text \<open>
  A frame's \<open>data\<close> is untyped in the source. For \<open>message_delta\<close> and
  \<open>message_complete\<close> the model keeps whether \<open>data\<close> is an object at all (reading a
  property of \<open>null\<close> or \<open>undefined\<close> throws) and its \<open>content\<close> property, a
  string when present; for \<open>citations\<close>, the \<open>messageId\<close> and \<open>citations\<close>
  properties.
\<close>

datatype content_data = NoData | Data "string option"

datatype citations_data = NoCitData | CitData "string option" "citation list option"

datatype frame =
    ConnectionStatus
  | SessionStart
  | TypingStart
  | MessageDelta content_data
  | MessageComplete content_data
  | CitationsFrame citations_data
  | ErrorFrame
  | OtherType

datatype raw_frame = Unparsable_frame | Parsed frame

datatype js_error = TypeError | SyntaxError

definition truthy :: "string option \<Rightarrow> bool" where
  "truthy x = (case x of None \<Rightarrow> False | Some v \<Rightarrow> v \<noteq> [])"

definition or_empty :: "string option \<Rightarrow> string" where
  "or_empty x = (case x of None \<Rightarrow> [] | Some v \<Rightarrow> v)"

definition handleMessageStart :: "env \<Rightarrow> ws_client \<Rightarrow> js_error + ws_client" where
  "handleMessageStart e c =
     (case addMessage e \<lparr> n_role = Assistant, n_content = [], n_status = Streaming,
                            n_isStreaming = Some True, n_citations = None \<rparr> (stateManager c) of
        (message, sm) \<Rightarrow>
          Inr (emit_client (EvMessageStart (msg_id message)) (c\<lparr>stateManager := sm\<rparr>)))"

definition handleMessageChunk :: "content_data \<Rightarrow> ws_client \<Rightarrow> js_error + ws_client" where
  "handleMessageChunk data c =
     (case getLastMessage (stateManager c) of
        None \<Rightarrow> Inr c
      | Some lastMessage \<Rightarrow>
          (if role lastMessage = Assistant \<and> isStreaming lastMessage = Some True
           then (case data of
                   NoData \<Rightarrow> Inl TypeError
                 | Data dc \<Rightarrow>
                     (let updatedContent = content lastMessage @ or_empty dc
                      in case updateMessage (msg_id lastMessage)
                                (no_updates\<lparr>u_content := Some updatedContent,
                                            u_isStreaming := Some True\<rparr>) (stateManager c) of
                           (r, sm) \<Rightarrow>
                             Inr (emit_client (EvMessageChunk (msg_id lastMessage) dc)
                                    (c\<lparr>stateManager := sm\<rparr>))))
           else Inr c))"

definition handleMessageComplete :: "content_data \<Rightarrow> ws_client \<Rightarrow> js_error + ws_client" where
  "handleMessageComplete data c =
     (case getLastMessage (stateManager c) of
        None \<Rightarrow> Inr c
      | Some lastMessage \<Rightarrow>
          (if role lastMessage = Assistant
           then (case data of
                   NoData \<Rightarrow> Inl TypeError
                 | Data dc \<Rightarrow>
                     (case updateMessage (msg_id lastMessage)
                             (no_updates\<lparr>u_isStreaming := Some False,
                                         u_content := (if truthy dc then dc else None)\<rparr>)
                             (stateManager c) of
                        (r, sm) \<Rightarrow>
                          Inr (emit_client (EvMessageComplete (msg_id lastMessage))
                                 (c\<lparr>stateManager := sm\<rparr>))))
           else Inr c))"

definition handleCitations :: "citations_data \<Rightarrow> ws_client \<Rightarrow> js_error + ws_client" where
  "handleCitations data c =
     (case data of
        NoCitData \<Rightarrow> Inl TypeError
      | CitData messageId cits \<Rightarrow>
          (case (messageId, cits) of
             (Some mid, Some cs) \<Rightarrow>
               (if mid \<noteq> []
                then Inr (emit_client EvCitations
                            (c\<lparr>stateManager := addCitationsToMessage mid cs (stateManager c)\<rparr>))
                else Inr c)
           | _ \<Rightarrow> Inr c))"

definition handleError :: "ws_client \<Rightarrow> js_error + ws_client" where
  "handleError c = Inr (emit_client EvServerError c)"

text \<open>
  \<open>handleMessage\<close>: the switch on the frame type inside \<open>try\<close>. An exception,
  from \<open>JSON.parse\<close> or from a handler, is caught and logged; every handler throws, if
  it does, before it changes anything, so the client is then as it was. Otherwise the
  \<open>message\<close> event is emitted after the handler.
\<close>

definition dispatch :: "env \<Rightarrow> frame \<Rightarrow> ws_client \<Rightarrow> js_error + ws_client" where
  "dispatch e f c =
     (case f of
        ConnectionStatus \<Rightarrow> Inr c
      | SessionStart \<Rightarrow> Inr c
      | TypingStart \<Rightarrow> handleMessageStart e c
      | MessageDelta d \<Rightarrow> handleMessageChunk d c
      | MessageComplete d \<Rightarrow> handleMessageComplete d c
      | CitationsFrame d \<Rightarrow> handleCitations d c
      | ErrorFrame \<Rightarrow> handleError c
      | OtherType \<Rightarrow> Inr c)"

definition handleMessage :: "env \<Rightarrow> raw_frame \<Rightarrow> ws_client \<Rightarrow> ws_client" where
  "handleMessage e rawData c =
     (case rawData of
        Unparsable_frame \<Rightarrow> c
      | Parsed f \<Rightarrow>
          (case dispatch e f c of
             Inl err \<Rightarrow> c
           | Inr c1 \<Rightarrow> emit_client EvMessage c1))"

text \<open>Frames are handled one at a time, in the order of arrival.\<close>

fun handleMessages :: "(env \<times> raw_frame) list \<Rightarrow> ws_client \<Rightarrow> ws_client" where
  "handleMessages [] c = c"
| "handleMessages ((e, r) # rest) c = handleMessages rest (handleMessage e r c)"

subsection \<open>Connection, disconnection and reconnection\<close>

text \<open>
  \<open>cleanup\<close>: \<open>clearTimeout\<close> on the handle the client holds, which is then
  forgotten (the ping interval is left out, see above).
\<close>

definition cleanup :: "ws_client \<Rightarrow> ws_client" where
  "cleanup c =
     (case reconnectTimer c of
        None \<Rightarrow> c
      | Some t \<Rightarrow> c\<lparr>pendingTimers := removeAll t (pendingTimers c), reconnectTimer := None\<rparr>)"

text \<open>
  \<open>connect\<close>. Whether \<open>new WebSocket(url)\<close> throws is decided outside the client
  and is the first argument; when it throws, the \<open>catch\<close> sets the connection state to
  disconnected and no socket exists. Otherwise a socket in state CONNECTING exists, with
  the four handlers below attached, and \<open>this.ws\<close> refers to it. A socket that
  \<open>this.ws\<close> referred to before is not closed.
\<close>

definition connect :: "bool \<Rightarrow> ws_client \<Rightarrow> ws_client" where
  "connect constructor_throws c =
     (let c1 = c\<lparr>isIntentionallyClosed := False,
                 stateManager := setConnectionState Connecting (stateManager c)\<rparr>
      in if constructor_throws
         then c1\<lparr>stateManager := setConnectionState Disconnected (stateManager c1)\<rparr>
         else c1\<lparr>sockets := sockets c1 @ [CONNECTING], ws := Some (length (sockets c1))\<rparr>)"

definition scheduleReconnect :: "ws_client \<Rightarrow> ws_client" where
  "scheduleReconnect c =
     (if reconnectAttempts c \<ge> maxReconnectAttempts (config c)
      then emit_client EvMaxReconnectAttemptsReached c
      else c\<lparr>reconnectAttempts := reconnectAttempts c + 1,
             reconnectTimer := Some (timersSet c),
             pendingTimers := pendingTimers c @ [timersSet c],
             timersSet := Suc (timersSet c)\<rparr>)"

text \<open>The handlers that \<open>connect\<close> attaches to a socket.\<close>

definition onopen :: "ws_client \<Rightarrow> ws_client" where
  "onopen c =
     emit_client EvConnected
       (c\<lparr>stateManager := setConnectionState Connected (stateManager c),
          reconnectAttempts := 0\<rparr>)"

definition onclose :: "ws_client \<Rightarrow> ws_client" where
  "onclose c =
     (let c1 = emit_client EvDisconnected
                 (cleanup (c\<lparr>stateManager := setConnectionState Disconnected (stateManager c)\<rparr>))
      in if \<not> isIntentionallyClosed c1 then scheduleReconnect c1 else c1)"

definition onerror :: "ws_client \<Rightarrow> ws_client" where
  "onerror c = emit_client EvError c"

text \<open>The callback that \<open>scheduleReconnect\<close> gives to \<open>setTimeout\<close>.\<close>

definition reconnect_timeout :: "bool \<Rightarrow> ws_client \<Rightarrow> ws_client" where
  "reconnect_timeout constructor_throws c =
     (if \<not> isIntentionallyClosed c then connect constructor_throws c else c)"

text \<open>
  \<open>disconnect\<close>: \<open>close\<close> on an open socket takes it to CLOSING (its close event
  comes later); a socket still connecting is only let go of.
\<close>

definition disconnect :: "ws_client \<Rightarrow> ws_client" where
  "disconnect c =
     (let c1 = cleanup (c\<lparr>isIntentionallyClosed := True\<rparr>);
          c2 = (case ws c1 of
                  None \<Rightarrow> c1
                | Some i \<Rightarrow>
                    c1\<lparr>sockets := (if i < length (sockets c1) \<and> sockets c1 ! i = OPEN
                                    then (sockets c1)[i := CLOSING] else sockets c1),
                       ws := None\<rparr>)
      in c2\<lparr>stateManager := setConnectionState Disconnected (stateManager c2)\<rparr>)"

subsection \<open>Executions\<close>

text \<open>
  What can happen to a client: the caller calls \<open>connect\<close> or \<open>disconnect\<close>; a
  socket that is connecting opens; a socket that is not closed reports an error, or
  closes; an open socket delivers a frame; a pending timeout fires. The browser changes
  the socket's \<open>readyState\<close> before it runs the handler. An execution is a list of
  such actions, each possible when it happens.
\<close>

datatype action =
    CallConnect bool
  | CallDisconnect
  | SocketOpens nat
  | SocketErrors nat
  | SocketCloses nat
  | SocketMessage nat env raw_frame
  | TimeoutFires nat bool

fun enabled :: "action \<Rightarrow> ws_client \<Rightarrow> bool" where
  "enabled (CallConnect b) c = True"
| "enabled CallDisconnect c = True"
| "enabled (SocketOpens i) c = (i < length (sockets c) \<and> sockets c ! i = CONNECTING)"
| "enabled (SocketErrors i) c = (i < length (sockets c) \<and> sockets c ! i \<noteq> CLOSED)"
| "enabled (SocketCloses i) c = (i < length (sockets c) \<and> sockets c ! i \<noteq> CLOSED)"
| "enabled (SocketMessage i e r) c = (i < length (sockets c) \<and> sockets c ! i = OPEN)"
| "enabled (TimeoutFires t b) c = (t \<in> set (pendingTimers c))"

fun step :: "action \<Rightarrow> ws_client \<Rightarrow> ws_client" where
  "step (CallConnect b) c = connect b c"
| "step CallDisconnect c = disconnect c"
| "step (SocketOpens i) c = onopen (c\<lparr>sockets := (sockets c)[i := OPEN]\<rparr>)"
| "step (SocketErrors i) c = onerror c"
| "step (SocketCloses i) c = onclose (c\<lparr>sockets := (sockets c)[i := CLOSED]\<rparr>)"
| "step (SocketMessage i e r) c = handleMessage e r c"
| "step (TimeoutFires t b) c =
     reconnect_timeout b (c\<lparr>pendingTimers := removeAll t (pendingTimers c)\<rparr>)"

fun run :: "action list \<Rightarrow> ws_client \<Rightarrow> ws_client option" where
  "run [] c = Some c"
| "run (a # rest) c = (if enabled a c then run rest (step a c) else None)"

fun is_connect_call :: "action \<Rightarrow> bool" where
  "is_connect_call (CallConnect b) = True"
| "is_connect_call a = False"

fun is_caller_action :: "action \<Rightarrow> bool" where
  "is_caller_action (CallConnect b) = True"
| "is_caller_action CallDisconnect = True"
| "is_caller_action a = False"

section \<open>CitationHandler (services/citation-handler.ts)\<close>

subsection \<open>Library behaviour the handler relies on\<close>

text \<open>
  \<open>Array.prototype.sort(compareFn)\<close> is a stable sort. \<open>neg a b\<close> stands for
  \<open>compareFn(a, b) < 0\<close>, "a goes before b". Both comparators of the handler order by
  a key, and for such a comparator every stable sort returns the same array; the model is
  the stable insertion sort.
\<close>

fun insert_before :: "('a \<Rightarrow> 'a \<Rightarrow> bool) \<Rightarrow> 'a \<Rightarrow> 'a list \<Rightarrow> 'a list" where
  "insert_before neg x [] = [x]"
| "insert_before neg x (y # ys) =
     (if neg y x then y # insert_before neg x ys else x # y # ys)"

definition array_sort :: "('a \<Rightarrow> 'a \<Rightarrow> bool) \<Rightarrow> 'a list \<Rightarrow> 'a list" where
  "array_sort neg xs = foldr (insert_before neg) xs []"

text \<open>
  A \<open>Map\<close> keeps its keys in the order of first insertion: an association list with
  distinct keys. \<open>set\<close> on a key that is present keeps the key's position.
\<close>

definition map_has :: "(string \<times> 'v) list \<Rightarrow> string \<Rightarrow> bool" where
  "map_has m k = (map_of m k \<noteq> None)"

fun map_set :: "string \<Rightarrow> 'v \<Rightarrow> (string \<times> 'v) list \<Rightarrow> (string \<times> 'v) list" where
  "map_set k v [] = [(k, v)]"
| "map_set k v (p # ps) = (if fst p = k then (k, v) # ps else p # map_set k v ps)"

text \<open>\<open>Math.max(...xs)\<close>; \<open>None\<close> is \<open>-Infinity\<close>, the result for no arguments.\<close>

definition math_max :: "real list \<Rightarrow> real option" where
  "math_max xs = (case xs of [] \<Rightarrow> None | x # rest \<Rightarrow> Some (fold max rest x))"

text \<open>
  \<open>String.prototype.toLowerCase\<close> and the split at \<open>/\\s+/\<close>, on the ASCII letters
  and the ASCII white space characters (space, tab, line feed, vertical tab, form feed,
  carriage return). A leading or trailing run of white space gives an empty first or last
  word, and the empty string splits into one empty word, as in JavaScript.
  The similarity is the exact quotient of the two set sizes, where the source divides
  in double precision.
\<close>

definition lower_char :: "char \<Rightarrow> char" where
  "lower_char c =
     (if (65::nat) \<le> of_char c \<and> of_char c \<le> (90::nat)
      then char_of (of_char c + (32::nat)) else c)"

definition toLowerCase :: "string \<Rightarrow> string" where
  "toLowerCase s = map lower_char s"

definition is_space :: "char \<Rightarrow> bool" where
  "is_space c = (of_char c \<in> {9::nat, 10, 11, 12, 13, 32})"

function split_whitespace :: "string \<Rightarrow> string list" where
  "split_whitespace [] = [[]]"
| "split_whitespace (c # cs) =
     (if is_space c then [] # split_whitespace (dropWhile is_space cs)
      else (case split_whitespace cs of [] \<Rightarrow> [[c]] | w # rest \<Rightarrow> (c # w) # rest))"
  by pat_completeness auto
termination
  by (relation "measure length") (auto simp: length_dropWhile_le less_Suc_eq_le)

text \<open>
  A number that may be any JavaScript number: the similarity threshold is the caller's.
  \<open>x > t\<close> for a finite \<open>x\<close>.
\<close>

datatype js_number = Finite real | PosInfinity | NegInfinity | NaN

definition js_gt :: "real \<Rightarrow> js_number \<Rightarrow> bool" where
  "js_gt x t =
     (case t of Finite r \<Rightarrow> r < x | PosInfinity \<Rightarrow> False | NegInfinity \<Rightarrow> True | NaN \<Rightarrow> False)"

subsection \<open>groupCitationsBySource\<close>

text \<open>\<open>citation.relevance_score || 0\<close>.\<close>

definition score :: "citation \<Rightarrow> real" where
  "score c = (case relevance_score c of None \<Rightarrow> 0 | Some r \<Rightarrow> r)"

text \<open>The comparator \<open>(a, b) => (b.relevance_score || 0) - (a.relevance_score || 0)\<close>.\<close>

definition compare_citations_neg :: "citation \<Rightarrow> citation \<Rightarrow> bool" where
  "compare_citations_neg a b = (score b - score a < 0)"

text \<open>The highest relevance of a group, \<open>Math.max(...g.citations.map(c => c.relevance_score || 0))\<close>.\<close>

definition max_relevance :: "citation_group \<Rightarrow> real option" where
  "max_relevance g = math_max (map score (g_citations g))"

text \<open>
  The comparator of the groups, \<open>maxRelevanceB - maxRelevanceA\<close>: negative exactly
  when the highest relevance of \<open>b\<close> is below that of \<open>a\<close>.
\<close>

definition compare_groups_neg :: "citation_group \<Rightarrow> citation_group \<Rightarrow> bool" where
  "compare_groups_neg a b = (max_relevance b < max_relevance a)"

text \<open>The body of the first \<open>forEach\<close>, for one citation.\<close>

definition add_to_groups ::
  "(string \<times> citation_group) list \<Rightarrow> citation \<Rightarrow> (string \<times> citation_group) list" where
  "add_to_groups groups c =
     (let key = source_file_id c;
          groups1 =
            (if \<not> map_has groups key
             then map_set key
                    \<lparr> g_source_file_id = source_file_id c,
                      g_source_file_url = source_file_url c,
                      g_source_file_name = source_file_name c,
                      g_citations = [], g_total_chunks = 0 \<rparr> groups
             else groups)
      in case map_of groups1 key of
           None \<Rightarrow> groups1
         | Some grp \<Rightarrow>
             map_set key (grp\<lparr>g_citations := g_citations grp @ [c],
                              g_total_chunks := g_total_chunks grp + 1\<rparr>) groups1)"

definition sort_group :: "citation_group \<Rightarrow> citation_group" where
  "sort_group g = g\<lparr>g_citations := array_sort compare_citations_neg (g_citations g)\<rparr>"

definition groupCitationsBySource :: "citation list \<Rightarrow> citation_group list" where
  "groupCitationsBySource cits =
     (let groups = foldl add_to_groups [] cits;
          sorted_groups = map (\<lambda>p. (fst p, sort_group (snd p))) groups
      in array_sort compare_groups_neg (map snd sorted_groups))"

subsection \<open>deduplicateCitations\<close>

definition calculateContentSimilarity :: "string \<Rightarrow> string \<Rightarrow> real" where
  "calculateContentSimilarity text1 text2 =
     (let words1 = remdups (split_whitespace (toLowerCase text1));
          words2 = remdups (split_whitespace (toLowerCase text2));
          intersection = filter (\<lambda>word. word \<in> set words2) words1;
          union = remdups (words1 @ words2)
      in real (length intersection) / real (length union))"

text \<open>The body of the loop: \<open>deduplicated\<close> after one more citation.\<close>

definition dedup_step :: "js_number \<Rightarrow> citation list \<Rightarrow> citation \<Rightarrow> citation list" where
  "dedup_step similarityThreshold deduplicated c =
     (let isDuplicate =
            list_ex (\<lambda>existing.
               js_gt (calculateContentSimilarity (content_snippet c) (content_snippet existing))
                     similarityThreshold) deduplicated
      in if \<not> isDuplicate then deduplicated @ [c] else deduplicated)"

text \<open>The threshold is 0.8 when the caller passes none.\<close>

definition deduplicateCitations :: "citation list \<Rightarrow> js_number option \<Rightarrow> citation list" where
  "deduplicateCitations cits similarityThreshold =
     foldl (dedup_step (case similarityThreshold of None \<Rightarrow> Finite 0.8 | Some t \<Rightarrow> t)) [] cits"

section \<open>StateManager reads at the level of references\<close>

text \<open>
  Whether a read hands out the store's own array or a copy is not visible in the model
  above, where a list is a value. For that question arrays and message objects are put in
  a heap: an array is a list of references to message objects, and \<open>h_messages\<close> is
  the reference held in \<open>currentSession.messages\<close> (\<open>None\<close> when there is no
  session).
\<close>

type_synonym ref = nat

record ref_store =
  h_arrays :: "ref \<Rightarrow> ref list option"
  h_objects :: "ref \<Rightarrow> message option"
  h_next :: ref
  h_messages :: "ref option"

text \<open>The store as its constructor leaves it: a session whose message array is empty.\<close>

definition new_StateManager_ref :: ref_store where
  "new_StateManager_ref =
     \<lparr> h_arrays = Map.empty(0 \<mapsto> []), h_objects = Map.empty, h_next = 1, h_messages = Some 0 \<rparr>"

text \<open>\<open>return this.currentSession?.messages || []\<close>: the session's array itself; a new empty array only when there is no session.\<close>

definition getMessages_ref :: "ref_store \<Rightarrow> ref \<times> ref_store" where
  "getMessages_ref h =
     (case h_messages h of
        Some a \<Rightarrow> (a, h)
      | None \<Rightarrow> (h_next h, h\<lparr>h_arrays := (h_arrays h)(h_next h \<mapsto> []), h_next := Suc (h_next h)\<rparr>))"

text \<open>\<open>messages[messages.length - 1]\<close> of that array, or \<open>null\<close>: the element itself.\<close>

definition getLastMessage_ref :: "ref_store \<Rightarrow> ref option \<times> ref_store" where
  "getLastMessage_ref h =
     (case getMessages_ref h of
        (a, h1) \<Rightarrow>
          (case h_arrays h1 a of
             None \<Rightarrow> (None, h1)
           | Some rs \<Rightarrow> (if length rs > 0 then (Some (rs ! (length rs - 1)), h1) else (None, h1))))"

text \<open>What a caller can do with a reference: make an object, push onto an array, assign a property.\<close>

definition new_object :: "message \<Rightarrow> ref_store \<Rightarrow> ref \<times> ref_store" where
  "new_object m h = (h_next h, h\<lparr>h_objects := (h_objects h)(h_next h \<mapsto> m), h_next := Suc (h_next h)\<rparr>)"

definition array_push :: "ref \<Rightarrow> ref \<Rightarrow> ref_store \<Rightarrow> ref_store" where
  "array_push a r h =
     (case h_arrays h a of
        None \<Rightarrow> h
      | Some rs \<Rightarrow> h\<lparr>h_arrays := (h_arrays h)(a \<mapsto> rs @ [r])\<rparr>)"

definition assign_content :: "ref \<Rightarrow> string \<Rightarrow> ref_store \<Rightarrow> ref_store" where
  "assign_content r txt h =
     (case h_objects h r of
        None \<Rightarrow> h
      | Some m \<Rightarrow> h\<lparr>h_objects := (h_objects h)(r \<mapsto> m\<lparr>content := txt\<rparr>)\<rparr>)"

text \<open>The session's message list read through the heap, as values.\<close>

definition deref_all :: "ref_store \<Rightarrow> ref list \<Rightarrow> message list" where
  "deref_all h rs = List.map_filter (h_objects h) rs"

definition store_messages :: "ref_store \<Rightarrow> message list" where
  "store_messages h =
     (case h_messages h of
        None \<Rightarrow> []
      | Some a \<Rightarrow> (case h_arrays h a of None \<Rightarrow> [] | Some rs \<Rightarrow> deref_all h rs))"

text \<open>\<open>returned.push(x)\<close> by a caller, for a message object \<open>x\<close> it has just made.\<close>

definition caller_push :: "message \<Rightarrow> ref \<Rightarrow> ref_store \<Rightarrow> ref_store" where
  "caller_push x a h = (case new_object x h of (r, h1) \<Rightarrow> array_push a r h1)"

section \<open>Notions used in the statements\<close>



text \<open>
  The text a \<open>message_delta\<close> frame contributes: \<open>data.content || ''\<close>, and nothing
  when \<open>data\<close> is no object (the handler then throws before it updates anything).
\<close>

definition delta_text :: "content_data \<Rightarrow> string" where
  "delta_text d = (case d of NoData \<Rightarrow> [] | Data dc \<Rightarrow> or_empty dc)"

text \<open>A run of \<open>message_delta\<close> frames, each with the environment it is handled in.\<close>

definition delta_frames :: "(env \<times> content_data) list \<Rightarrow> (env \<times> raw_frame) list" where
  "delta_frames ds = map (\<lambda>p. (fst p, Parsed (MessageDelta (snd p)))) ds"

text \<open>The keys of a list in the order in which each is seen first.\<close>

definition first_seen :: "'a list \<Rightarrow> 'a list" where
  "first_seen xs = rev (remdups (rev xs))"

text \<open>
  The group of a source as the specification describes it before any sorting: the
  citations of the input with that \<open>source_file_id\<close>, in input order, with the url
  and name of the first of them.
\<close>

definition members_group :: "citation list \<Rightarrow> string \<Rightarrow> citation_group" where
  "members_group cits k =
     (let members = filter (\<lambda>c. source_file_id c = k) cits
      in case members of
           [] \<Rightarrow> \<lparr> g_source_file_id = k, g_source_file_url = [], g_source_file_name = [],
                   g_citations = [], g_total_chunks = 0 \<rparr>
         | c0 # rest \<Rightarrow>
             \<lparr> g_source_file_id = k, g_source_file_url = source_file_url c0,
               g_source_file_name = source_file_name c0,
               g_citations = members, g_total_chunks = length members \<rparr>)"

text \<open>The groups in first-seen order of their sources, each sorted inside.\<close>

definition first_seen_groups :: "citation list \<Rightarrow> citation_group list" where
  "first_seen_groups cits =
     map (\<lambda>k. sort_group (members_group cits k)) (first_seen (map source_file_id cits))"

text \<open>No citation of the list is a duplicate of one before it, at threshold \<open>t\<close>.\<close>

definition no_duplicate_after :: "js_number \<Rightarrow> citation list \<Rightarrow> bool" where
  "no_duplicate_after t xs =
     sorted_wrt (\<lambda>earlier later.
        \<not> js_gt (calculateContentSimilarity (content_snippet later) (content_snippet earlier)) t) xs"

text \<open>The sockets that can still fire an event, and how often the terminal event was emitted.\<close>

definition live_sockets :: "ws_client \<Rightarrow> nat" where
  "live_sockets c = length (filter (\<lambda>st. st \<noteq> CLOSED) (sockets c))"

definition max_reached_count :: "ws_client \<Rightarrow> nat" where
  "max_reached_count c = count_list (emitted c) EvMaxReconnectAttemptsReached"

text \<open>
  What holds of a client that the caller connected once: at most one socket is live; a
  pending timeout is the one whose handle the client holds, and none is pending while a
  socket is live; the terminal event was emitted at most once, and once it was, no socket
  is live and no timeout is pending.
\<close>

definition single_connection :: "ws_client \<Rightarrow> bool" where
  "single_connection c =
     (live_sockets c \<le> 1
      \<and> set (pendingTimers c) \<subseteq> set_option (reconnectTimer c)
      \<and> (pendingTimers c \<noteq> [] \<longrightarrow> live_sockets c = 0)
      \<and> max_reached_count c \<le> 1
      \<and> (max_reached_count c = 1 \<longrightarrow> live_sockets c = 0 \<and> pendingTimers c = []))"

subsection \<open>Concrete inputs\<close>

definition env0 :: env where
  "env0 = \<lparr> now = 0, rnd = ''a'' \<rparr>"

definition env1 :: env where
  "env1 = \<lparr> now = 1, rnd = ''b'' \<rparr>"

definition env2 :: env where
  "env2 = \<lparr> now = 2, rnd = ''c'' \<rparr>"

definition config_max3 :: websocket_config_in where
  "config_max3 =
     \<lparr> o_url = ''ws://localhost:8000/ws/s'', o_reconnectAttempts = None,
       o_maxReconnectAttempts = Some 3, o_reconnectDelay = None,
       o_reconnectInterval = None, o_heartbeatInterval = None, o_pingInterval = None \<rparr>"

text \<open>A client as the chat interface makes it: a new store, a new client on it.\<close>

definition fresh_client :: ws_client where
  "fresh_client = new_WebSocketClient config_max3 (new_StateManager env0)"

text \<open>
  A session in which a user message was added to the store while an assistant message
  was streaming: a \<open>typing_start\<close> frame, then \<open>addMessage\<close> with a user message.
\<close>

definition client_user_after_stream :: ws_client where
  "client_user_after_stream =
     (let c1 = handleMessage env1 (Parsed TypingStart) fresh_client
      in c1\<lparr>stateManager :=
               snd (addMessage env2
                      \<lparr> n_role = User, n_content = ''hi'', n_status = Sent,
                        n_isStreaming = None, n_citations = None \<rparr> (stateManager c1))\<rparr>)"

definition user_hi :: message where
  "user_hi = \<lparr> msg_id = ''m'', role = User, content = ''hi'', timestamp = DateObj (Date 0),
               status = Sent, isStreaming = None, citations = None \<rparr>"

definition store_one_message :: ref_store where
  "store_one_message =
     \<lparr> h_arrays = Map.empty(0 \<mapsto> [1]), h_objects = Map.empty(1 \<mapsto> user_hi), h_next = 2,
       h_messages = Some 0 \<rparr>"

text \<open>The store after one \<open>typing_start\<close> frame at time 1: one message, id \<open>msg_1b\<close>.\<close>

definition store_after_stream :: state_manager where
  "store_after_stream = stateManager (handleMessage env1 (Parsed TypingStart) fresh_client)"

text \<open>Citations: two of source \<open>a\<close> with nearly the same snippet, one of source \<open>b\<close>.\<close>

definition cit_a1 :: citation where
  "cit_a1 = \<lparr> cit_id = ''c1'', source_file_id = ''a'', source_file_url = ''http://h/a'',
               source_file_name = ''a.pdf'', content_snippet = ''the cat sat'',
               relevance_score = None, page_number = None \<rparr>"

definition cit_b1 :: citation where
  "cit_b1 = \<lparr> cit_id = ''c2'', source_file_id = ''b'', source_file_url = ''http://h/b'',
               source_file_name = ''b.pdf'', content_snippet = ''a dog ran'',
               relevance_score = Some 1, page_number = None \<rparr>"

definition cit_a2 :: citation where
  "cit_a2 = \<lparr> cit_id = ''c3'', source_file_id = ''a'', source_file_url = ''http://h/a'',
               source_file_name = ''a.pdf'', content_snippet = ''The  cat SAT'',
               relevance_score = Some (1 / 2), page_number = Some 3 \<rparr>"

text \<open>
  Executions with \<open>maxReconnectAttempts\<close> 3 in which no socket ever opens. In the
  first the caller has connected once: the socket closes and the three reconnects are
  scheduled and made (\<open>reconnects_before_close\<close>); then the last socket closes too and
  the caller disconnects. In the second the caller connects, disconnects while the socket
  is still connecting, and connects again, so that two sockets are live.
\<close>

definition reconnects_before_close :: "action list" where
  "reconnects_before_close =
     [SocketCloses 0, TimeoutFires 0 False, SocketCloses 1, TimeoutFires 1 False,
      SocketCloses 2, TimeoutFires 2 False]"

definition reconnects_fail :: "action list" where
  "reconnects_fail = reconnects_before_close @ [SocketCloses 3, CallDisconnect]"

definition reconnects_fail_two_sockets :: "action list" where
  "reconnects_fail_two_sockets =
     [CallConnect False, CallDisconnect, CallConnect False,
      SocketCloses 0, TimeoutFires 0 False, SocketCloses 1, TimeoutFires 1 False,
      SocketCloses 2, TimeoutFires 2 False, SocketCloses 3, SocketCloses 4]"

section \<open>Properties\<close>

subsection \<open>The constructor's defaults\<close>

lemma or_default_zero: "or_default (Some 0) d = d"
  by (simp add: or_default_def)

lemma or_default_nonzero: "d \<noteq> 0 \<Longrightarrow> or_default x d \<noteq> 0"
  by (simp add: or_default_def split: option.split)

text \<open>
  Claim C10. In the WebSocketClient constructor a numeric option passed as 0 is replaced
  by its built-in default: maxReconnectAttempts 0 becomes 5, reconnectInterval 0 becomes
  3000, pingInterval 0 becomes 30000 (and reconnectDelay 0 becomes 1000,
  heartbeatInterval 0 becomes 25000); whatever the caller passes, none of these options
  of the resulting configuration is 0, so zero reconnect attempts or a zero-length
  interval cannot be configured.
\<close>

theorem constructor_zero_replaced_by_default:
  "maxReconnectAttempts (make_config (c\<lparr>o_maxReconnectAttempts := Some 0\<rparr>)) = 5
   \<and> reconnectInterval (make_config (c\<lparr>o_reconnectInterval := Some 0\<rparr>)) = 3000
   \<and> pingInterval (make_config (c\<lparr>o_pingInterval := Some 0\<rparr>)) = 30000
   \<and> reconnectDelay (make_config (c\<lparr>o_reconnectDelay := Some 0\<rparr>)) = 1000
   \<and> heartbeatInterval (make_config (c\<lparr>o_heartbeatInterval := Some 0\<rparr>)) = 25000
   \<and> maxReconnectAttempts (make_config c) \<noteq> 0
   \<and> reconnectInterval (make_config c) \<noteq> 0
   \<and> pingInterval (make_config c) \<noteq> 0
   \<and> reconnectDelay (make_config c) \<noteq> 0
   \<and> heartbeatInterval (make_config c) \<noteq> 0"
  by (simp add: make_config_def or_default_zero or_default_nonzero)

subsection \<open>The store's message list under the operations\<close>

lemma getMessages_emit_store [simp]: "getMessages (emit_store ev s) = getMessages s"
  by (simp add: getMessages_def emit_store_def)

lemma getMessages_addMessage:
  "getMessages (snd (addMessage e m s)) = getMessages s @ [fst (addMessage e m s)]"
  by (cases "currentSession s")
     (simp_all add: addMessage_def getMessages_def emit_store_def initializeSession_def
        new_session_def Let_def)

lemma fst_addMessage:
  "fst (addMessage e m s) =
     \<lparr> msg_id = generateMessageId e, role = n_role m, content = n_content m,
       timestamp = DateObj (Date (now e)), status = n_status m,
       isStreaming = n_isStreaming m, citations = n_citations m \<rparr>"
  by (cases "currentSession s")
     (simp_all add: addMessage_def initializeSession_def Let_def)

lemma getMessages_updateMessage:
  "getMessages (snd (updateMessage i u s)) =
     (case findIndex (\<lambda>m. msg_id m = i) (getMessages s) of
        None \<Rightarrow> getMessages s
      | Some k \<Rightarrow> (getMessages s)[k := apply_updates (getMessages s ! k) u])"
  by (cases "currentSession s")
     (simp_all add: updateMessage_def getMessages_def emit_store_def Let_def split: option.split)


lemma findIndex_Some:
  "findIndex P xs = Some i \<Longrightarrow> i < length xs \<and> P (xs ! i) \<and> (\<forall>j<i. \<not> P (xs ! j))"
proof (induction xs arbitrary: i)
  case Nil
  then show ?case by simp
next
  case (Cons x xs)
  show ?case
  proof (cases "P x")
    case True
    with Cons.prems show ?thesis by simp
  next
    case False
    with Cons.prems obtain k where k: "findIndex P xs = Some k" "i = Suc k"
      by (auto split: option.splits)
    from Cons.IH [OF k(1)] False k(2) show ?thesis
      by (auto simp: nth_Cons split: nat.splits)
  qed
qed

lemma findIndex_None: "findIndex P xs = None \<longleftrightarrow> (\<forall>x\<in>set xs. \<not> P x)"
  by (induction xs) (auto split: option.splits)

lemma findIndex_append_fresh:
  "\<forall>x\<in>set xs. \<not> P x \<Longrightarrow> P y \<Longrightarrow> findIndex P (xs @ [y]) = Some (length xs)"
  by (induction xs) auto

lemma findIndex_last_distinct:
  assumes "distinct (map f xs)" "xs \<noteq> []"
  shows "findIndex (\<lambda>x. f x = f (last xs)) xs = Some (length xs - 1)"
proof -
  obtain ys y where xs: "xs = ys @ [y]" using assms(2) by (metis append_butlast_last_id)
  from assms(1) have "f y \<notin> f ` set ys" unfolding xs by simp
  then have "\<forall>x\<in>set ys. f x \<noteq> f y" by (metis imageI)
  then show ?thesis unfolding xs
    using findIndex_append_fresh [of ys "\<lambda>x. f x = f y" y] by simp
qed








lemma stateManager_emit_client [simp]: "stateManager (emit_client ev c) = stateManager c"
  by (simp add: emit_client_def)





subsection \<open>Streaming frames\<close>

lemma getLastMessage_append [simp]:
  "getMessages s = ms @ [m] \<Longrightarrow> getLastMessage s = Some m"
  by (simp add: getLastMessage_def)

lemma getLastMessage_Nil [simp]:
  "getMessages s = [] \<Longrightarrow> getLastMessage s = None"
  by (simp add: getLastMessage_def)

lemma getMessages_updateMessage_last:
  assumes "getMessages s = ms @ [m]" "msg_id m \<notin> msg_id ` set ms"
  shows "getMessages (snd (updateMessage (msg_id m) u s)) = ms @ [apply_updates m u]"
proof -
  from assms(2) have "\<forall>x\<in>set ms. \<not> msg_id x = msg_id m" by (metis imageI)
  then have "findIndex (\<lambda>x. msg_id x = msg_id m) (ms @ [m]) = Some (length ms)"
    by (rule findIndex_append_fresh) simp
  with assms(1) show ?thesis by (simp add: getMessages_updateMessage)
qed

lemma typing_start_messages:
  "getMessages (stateManager (handleMessage e (Parsed TypingStart) c)) =
     getMessages (stateManager c) @
       [\<lparr> msg_id = generateMessageId e, role = Assistant, content = [],
          timestamp = DateObj (Date (now e)), status = Streaming,
          isStreaming = Some True, citations = None \<rparr>]"
  by (simp add: handleMessage_def dispatch_def handleMessageStart_def case_prod_unfold
      getMessages_addMessage fst_addMessage)

lemma message_delta_last:
  assumes "getMessages (stateManager c) = ms @ [m]" "msg_id m \<notin> msg_id ` set ms"
    and "role m = Assistant" "isStreaming m = Some True"
  shows "getMessages (stateManager (handleMessage e (Parsed (MessageDelta d)) c)) =
           ms @ [m\<lparr>content := content m @ delta_text d\<rparr>]"
proof (cases d)
  case NoData
  with assms show ?thesis
    by (simp add: handleMessage_def dispatch_def handleMessageChunk_def delta_text_def)
next
  case (Data dc)
  have "apply_updates m (no_updates\<lparr>u_content := Some (content m @ or_empty dc),
                                    u_isStreaming := Some True\<rparr>) =
          m\<lparr>content := content m @ or_empty dc\<rparr>"
    using assms(4) by (simp add: apply_updates_def no_updates_def)
  with Data assms show ?thesis
    by (simp add: handleMessage_def dispatch_def handleMessageChunk_def delta_text_def
        case_prod_unfold getMessages_updateMessage_last)
qed

lemma message_delta_not_target:
  assumes "getMessages (stateManager c) = [] \<or>
           \<not> (role (last (getMessages (stateManager c))) = Assistant \<and>
              isStreaming (last (getMessages (stateManager c))) = Some True)"
  shows "getMessages (stateManager (handleMessage e (Parsed (MessageDelta d)) c)) =
           getMessages (stateManager c)"
proof (cases "getMessages (stateManager c) = []")
  case True
  then show ?thesis
    by (simp add: handleMessage_def dispatch_def handleMessageChunk_def)
next
  case False
  then obtain ms m where ms: "getMessages (stateManager c) = ms @ [m]"
    by (metis append_butlast_last_id)
  with assms False show ?thesis
    by (auto simp: handleMessage_def dispatch_def handleMessageChunk_def)
qed

text \<open>
  Claim C2, as amended. The client takes the last message of the session as the target of
  a \<open>message_delta\<close> frame. When the ids of the session's messages are distinct: if
  that last message has role assistant and a true \<open>isStreaming\<close> flag, the frame's
  \<open>data.content\<close> is appended to its content and no other message changes; otherwise
  the frame leaves the message list as it was.
\<close>

theorem message_delta_appends_to_last:
  assumes "distinct (map msg_id (getMessages (stateManager c)))"
  shows "getMessages (stateManager (handleMessage e (Parsed (MessageDelta d)) c)) =
     (let ms = getMessages (stateManager c)
      in if ms \<noteq> [] \<and> role (last ms) = Assistant \<and> isStreaming (last ms) = Some True
         then butlast ms @ [(last ms)\<lparr>content := content (last ms) @ delta_text d\<rparr>]
         else ms)"
proof (cases "getMessages (stateManager c) \<noteq> [] \<and>
              role (last (getMessages (stateManager c))) = Assistant \<and>
              isStreaming (last (getMessages (stateManager c))) = Some True")
  case True
  define ms where "ms = butlast (getMessages (stateManager c))"
  define m where "m = last (getMessages (stateManager c))"
  from True have eq: "getMessages (stateManager c) = ms @ [m]"
    by (simp add: ms_def m_def)
  from assms have "msg_id m \<notin> msg_id ` set ms" unfolding eq by simp
  from message_delta_last [OF eq this] True
  have "getMessages (stateManager (handleMessage e (Parsed (MessageDelta d)) c)) =
          ms @ [m\<lparr>content := content m @ delta_text d\<rparr>]"
    by (simp add: m_def)
  with True show ?thesis by (simp add: ms_def m_def Let_def)
next
  case False
  then have "getMessages (stateManager (handleMessage e (Parsed (MessageDelta d)) c)) =
               getMessages (stateManager c)"
    by (intro message_delta_not_target) blast
  with False show ?thesis by (auto simp: Let_def)
qed

lemma handleMessages_append:
  "handleMessages (xs @ ys) c = handleMessages ys (handleMessages xs c)"
  by (induction xs arbitrary: c) auto

lemma message_deltas_last:
  assumes "getMessages (stateManager c) = ms @ [m]" "msg_id m \<notin> msg_id ` set ms"
    and "role m = Assistant" "isStreaming m = Some True"
  shows "getMessages (stateManager (handleMessages (delta_frames ds) c)) =
           ms @ [m\<lparr>content := content m @ concat (map (\<lambda>p. delta_text (snd p)) ds)\<rparr>]"
  using assms
proof (induction ds arbitrary: c m)
  case Nil
  then show ?case by (simp add: delta_frames_def)
next
  case (Cons p ds)
  let ?c1 = "handleMessage (fst p) (Parsed (MessageDelta (snd p))) c"
  let ?m1 = "m\<lparr>content := content m @ delta_text (snd p)\<rparr>"
  have step: "getMessages (stateManager ?c1) = ms @ [?m1]"
    by (rule message_delta_last [OF Cons.prems])
  have "getMessages (stateManager (handleMessages (delta_frames ds) ?c1)) =
          ms @ [?m1\<lparr>content := content ?m1 @ concat (map (\<lambda>p. delta_text (snd p)) ds)\<rparr>]"
    using Cons.prems by (intro Cons.IH [OF step]) simp_all
  then show ?case by (simp add: delta_frames_def)
qed

lemma message_complete_last:
  assumes "getMessages (stateManager c) = ms @ [m]" "msg_id m \<notin> msg_id ` set ms"
    and "role m = Assistant"
  shows "getMessages (stateManager (handleMessage e (Parsed (MessageComplete (Data x))) c)) =
           ms @ [m\<lparr>isStreaming := Some False,
                   content := (if truthy x then the x else content m)\<rparr>]"
proof -
  have "apply_updates m (no_updates\<lparr>u_isStreaming := Some False,
                                    u_content := (if truthy x then x else None)\<rparr>) =
          m\<lparr>isStreaming := Some False, content := (if truthy x then the x else content m)\<rparr>"
    by (cases x) (simp_all add: apply_updates_def no_updates_def truthy_def)
  with assms show ?thesis
    by (simp add: handleMessage_def dispatch_def handleMessageComplete_def
        case_prod_unfold getMessages_updateMessage_last)
qed

text \<open>
  Claim C1, as amended. After a \<open>typing_start\<close> frame, whose generated id is not in
  use, and any sequence of \<open>message_delta\<close> frames, a \<open>message_complete\<close> frame
  leaves the earlier messages as they were, followed by the assistant message made at
  \<open>typing_start\<close>, with its \<open>isStreaming\<close> flag false; its content is the
  concatenation of the delta contents, unless the frame supplies a non-empty content,
  which then replaces it.
\<close>

theorem stream_then_complete:
  assumes "generateMessageId e0 \<notin> msg_id ` set (getMessages (stateManager c))"
  shows "\<exists>m. getMessages (stateManager
                (handleMessages ((e0, Parsed TypingStart) # delta_frames ds @
                                 [(e1, Parsed (MessageComplete (Data x)))]) c)) =
               getMessages (stateManager c) @ [m]
             \<and> msg_id m = generateMessageId e0 \<and> role m = Assistant
             \<and> isStreaming m = Some False
             \<and> content m = (if truthy x then the x
                            else concat (map (\<lambda>p. delta_text (snd p)) ds))"
proof -
  let ?m0 = "\<lparr> msg_id = generateMessageId e0, role = Assistant, content = [],
               timestamp = DateObj (Date (now e0)), status = Streaming,
               isStreaming = Some True, citations = None \<rparr>"
  let ?ms = "getMessages (stateManager c)"
  let ?c1 = "handleMessage e0 (Parsed TypingStart) c"
  let ?c2 = "handleMessages (delta_frames ds) ?c1"
  let ?m2 = "?m0\<lparr>content := content ?m0 @ concat (map (\<lambda>p. delta_text (snd p)) ds)\<rparr>"
  have s1: "getMessages (stateManager ?c1) = ?ms @ [?m0]"
    by (rule typing_start_messages)
  have s2: "getMessages (stateManager ?c2) = ?ms @ [?m2]"
    using assms by (intro message_deltas_last [OF s1]) simp_all
  have s3: "getMessages (stateManager (handleMessage e1 (Parsed (MessageComplete (Data x))) ?c2)) =
              ?ms @ [?m2\<lparr>isStreaming := Some False,
                         content := (if truthy x then the x else content ?m2)\<rparr>]"
    using assms by (intro message_complete_last [OF s2]) simp_all
  show ?thesis
    by (simp add: handleMessages_append s3)
qed

lemma fresh_client_messages: "getMessages (stateManager fresh_client) = []"
  by (simp add: fresh_client_def new_WebSocketClient_def new_StateManager_def
      initializeSession_def getMessages_def new_session_def)

text \<open>
  The scenario of the specification: deltas "Hel", "lo ", "world", then
  \<open>message_complete\<close> without content.
\<close>

theorem stream_then_complete_witness:
  "generateMessageId env1 \<notin> msg_id ` set (getMessages (stateManager fresh_client))
   \<and> (\<exists>m. getMessages (stateManager
             (handleMessages [(env1, Parsed TypingStart),
                 (env1, Parsed (MessageDelta (Data (Some ''Hel'')))),
                 (env1, Parsed (MessageDelta (Data (Some ''lo '')))),
                 (env2, Parsed (MessageDelta (Data (Some ''world'')))),
                 (env2, Parsed (MessageComplete (Data None)))] fresh_client)) = [m]
          \<and> role m = Assistant \<and> isStreaming m = Some False \<and> content m = ''Hello world'')"
proof -
  have h: "generateMessageId env1 \<notin> msg_id ` set (getMessages (stateManager fresh_client))"
    by (simp add: fresh_client_messages)
  have "\<exists>m. getMessages (stateManager
             (handleMessages [(env1, Parsed TypingStart),
                 (env1, Parsed (MessageDelta (Data (Some ''Hel'')))),
                 (env1, Parsed (MessageDelta (Data (Some ''lo '')))),
                 (env2, Parsed (MessageDelta (Data (Some ''world'')))),
                 (env2, Parsed (MessageComplete (Data None)))] fresh_client)) = [] @ [m]
          \<and> msg_id m = generateMessageId env1
          \<and> role m = Assistant \<and> isStreaming m = Some False \<and> content m = ''Hello world''"
    using stream_then_complete [OF h,
      of "[(env1, Data (Some ''Hel'')), (env1, Data (Some ''lo '')), (env2, Data (Some ''world''))]"
         env2 None]
    by (simp add: delta_frames_def delta_text_def or_empty_def truthy_def fresh_client_messages)
  with h show ?thesis by auto
qed

text \<open>
  Claim C1, as stated, fails. In the scenario the final message has content
  "Hello world" and still status streaming: \<open>message_complete\<close> does not set the
  status. And a \<open>message_complete\<close> frame that supplies the empty string as content
  does not overwrite the accumulated content.
\<close>

theorem message_complete_leaves_status_streaming:
  "map (\<lambda>m. (content m, status m)) (getMessages (stateManager
     (handleMessages [(env1, Parsed TypingStart),
         (env1, Parsed (MessageDelta (Data (Some ''Hel'')))),
         (env1, Parsed (MessageDelta (Data (Some ''lo '')))),
         (env2, Parsed (MessageDelta (Data (Some ''world'')))),
         (env2, Parsed (MessageComplete (Data None)))] fresh_client))) = [(''Hello world'', Streaming)]
   \<and> map content (getMessages (stateManager
     (handleMessages [(env1, Parsed TypingStart),
         (env1, Parsed (MessageDelta (Data (Some ''Hel'')))),
         (env2, Parsed (MessageComplete (Data (Some ''''))))] fresh_client))) = [''Hel'']"
  by code_simp

text \<open>
  Claim C2, as stated, fails. With an assistant message that is streaming followed by a
  user message, the most recent message with role assistant and status streaming is the
  first one, and a \<open>message_delta\<close> frame changes no message: the delta is lost.
\<close>

theorem message_delta_lost_behind_user_message:
  "map (\<lambda>m. (role m, status m, isStreaming m, content m)) (getMessages (stateManager client_user_after_stream)) =
      [(Assistant, Streaming, Some True, ''''), (User, Sent, None, ''hi'')]
   \<and> getMessages (stateManager (handleMessage env2 (Parsed (MessageDelta (Data (Some ''x'')))) client_user_after_stream))
     = getMessages (stateManager client_user_after_stream)"
  by code_simp

theorem message_delta_appends_to_last_witness:
  "distinct (map msg_id (getMessages (stateManager (handleMessage env1 (Parsed TypingStart) fresh_client))))
   \<and> map content (getMessages (stateManager (handleMessage env2 (Parsed (MessageDelta (Data (Some ''x''))))
        (handleMessage env1 (Parsed TypingStart) fresh_client)))) = [''x'']"
proof -
  have g: "getMessages (stateManager (handleMessage env1 (Parsed TypingStart) fresh_client)) =
      [\<lparr> msg_id = generateMessageId env1, role = Assistant, content = [],
          timestamp = DateObj (Date (now env1)), status = Streaming,
          isStreaming = Some True, citations = None \<rparr>]"
    by (simp add: typing_start_messages fresh_client_messages)
  have h: "distinct (map msg_id (getMessages (stateManager (handleMessage env1 (Parsed TypingStart) fresh_client))))"
    by (simp add: g)
  from message_delta_appends_to_last [OF h, of env2 "Data (Some ''x'')"] h
  show ?thesis by (simp add: g delta_text_def or_empty_def Let_def)
qed

subsection \<open>Reads return the live objects\<close>

text \<open>
  Read through the reference that \<open>getMessages\<close> returns, the array holds the
  session's message list: the two levels agree on what a read sees.
\<close>

lemma getMessages_ref_reads:
  "(case getMessages_ref h of
      (a, h1) \<Rightarrow> (case h_arrays h1 a of None \<Rightarrow> [] | Some rs \<Rightarrow> deref_all h1 rs)) =
   store_messages h"
  by (cases "h_messages h")
     (simp_all add: getMessages_ref_def store_messages_def deref_all_def map_filter_def)

lemma deref_all_append: "deref_all h (rs @ ss) = deref_all h rs @ deref_all h ss"
  by (simp add: deref_all_def map_filter_def)

lemma deref_all_cong:
  "(\<And>r. r \<in> set rs \<Longrightarrow> h_objects h1 r = h_objects h r) \<Longrightarrow> deref_all h1 rs = deref_all h rs"
  by (induction rs) (simp_all add: deref_all_def map_filter_def)

lemma deref_all_last:
  "rs \<noteq> [] \<Longrightarrow> h_objects h (last rs) = Some m \<Longrightarrow> last (deref_all h rs) = m"
proof -
  assume a: "rs \<noteq> []" "h_objects h (last rs) = Some m"
  then have "rs = butlast rs @ [last rs]" by simp
  then have "deref_all h rs = deref_all h (butlast rs) @ deref_all h [last rs]"
    by (metis deref_all_append)
  with a(2) show ?thesis by (simp add: deref_all_def map_filter_def)
qed

text \<open>
  Claim C4, as amended. When a session exists, \<open>getMessages()\<close> returns the session's
  own message array and \<open>getLastMessage()\<close> the session's own last message object
  (\<open>null\<close> for an empty list); the reads themselves change nothing, but what the
  caller does through the returned reference is done to the store: after the caller
  pushes a message onto the returned array the store's message list is the old one
  followed by that message, and assigning \<open>content\<close> on the returned message changes
  the store's last message.
\<close>

theorem reads_return_live_references:
  assumes "h_messages h = Some a" and "h_arrays h a = Some rs" and "h_next h \<notin> set rs"
  shows "getMessages_ref h = (a, h)
       \<and> store_messages (caller_push x (fst (getMessages_ref h)) h) = store_messages h @ [x]
       \<and> getLastMessage_ref h = (if rs = [] then None else Some (last rs), h)
       \<and> (rs \<noteq> [] \<and> h_objects h (last rs) = Some m \<longrightarrow>
            last (store_messages h) = m \<and>
            last (store_messages (assign_content (last rs) txt h)) = m\<lparr>content := txt\<rparr>)"
proof -
  have g: "getMessages_ref h = (a, h)"
    using assms by (simp add: getMessages_ref_def)
  have p: "store_messages (caller_push x a h) = store_messages h @ [x]"
  proof -
    let ?h = "caller_push x a h"
    have f: "h_messages ?h = Some a" "h_arrays ?h a = Some (rs @ [h_next h])"
      "h_objects ?h = (h_objects h)(h_next h \<mapsto> x)"
      using assms by (simp_all add: caller_push_def new_object_def array_push_def)
    have "deref_all ?h rs = deref_all h rs"
      using assms(3) by (intro deref_all_cong) (auto simp: f(3))
    moreover have "deref_all ?h [h_next h] = [x]"
      by (simp add: deref_all_def map_filter_def f(3))
    ultimately have "store_messages ?h = deref_all h rs @ [x]"
      using f by (simp add: store_messages_def deref_all_append)
    then show ?thesis using assms by (simp add: store_messages_def)
  qed
  have l: "getLastMessage_ref h = (if rs = [] then None else Some (last rs), h)"
    using assms by (simp add: getLastMessage_ref_def g last_conv_nth)
  have w: "last (store_messages h) = m \<and>
           last (store_messages (assign_content (last rs) txt h)) = m\<lparr>content := txt\<rparr>"
    if "rs \<noteq> []" "h_objects h (last rs) = Some m"
  proof -
    let ?h = "assign_content (last rs) txt h"
    have "h_messages ?h = Some a" "h_arrays ?h a = Some rs"
      "h_objects ?h (last rs) = Some (m\<lparr>content := txt\<rparr>)"
      using assms that by (simp_all add: assign_content_def)
    then have "last (store_messages ?h) = m\<lparr>content := txt\<rparr>"
      using that(1) by (simp add: store_messages_def deref_all_last)
    moreover have "last (store_messages h) = m"
      using assms that by (simp add: store_messages_def deref_all_last)
    ultimately show ?thesis by simp
  qed
  from g p l w show ?thesis by simp
qed

text \<open>
  Claim C4, as stated, fails: on a new store the caller pushes a message onto the array
  that \<open>getMessages()\<close> returned, and the store's message list is no longer empty.
\<close>

theorem push_on_getMessages_result_changes_store:
  "store_messages new_StateManager_ref = []
   \<and> store_messages (caller_push user_hi (fst (getMessages_ref new_StateManager_ref))
                        (snd (getMessages_ref new_StateManager_ref))) = [user_hi]"
  by (simp add: store_messages_def new_StateManager_ref_def getMessages_ref_def new_object_def
      caller_push_def array_push_def deref_all_def map_filter_def)

theorem reads_return_live_references_witness:
  "h_messages store_one_message = Some 0 \<and> h_arrays store_one_message 0 = Some [1]
   \<and> h_next store_one_message \<notin> set [1]
   \<and> getMessages_ref store_one_message = (0, store_one_message)
   \<and> store_messages (caller_push user_hi (fst (getMessages_ref store_one_message)) store_one_message)
       = [user_hi, user_hi]
   \<and> getLastMessage_ref store_one_message = (Some 1, store_one_message)
   \<and> last (store_messages (assign_content 1 ''changed'' store_one_message)) = user_hi\<lparr>content := ''changed''\<rparr>"
proof -
  have h: "h_messages store_one_message = Some 0" "h_arrays store_one_message 0 = Some [1]"
    "h_next store_one_message \<notin> set [1]"
    by (simp_all add: store_one_message_def)
  have o: "h_objects store_one_message 1 = Some user_hi"
    by (simp add: store_one_message_def)
  have s: "store_messages store_one_message = [user_hi]"
    by (simp add: store_messages_def store_one_message_def deref_all_def map_filter_def)
  from reads_return_live_references [OF h, of user_hi user_hi "''changed''"] h o
  show ?thesis by (auto simp: s)
qed

subsection \<open>Export and import, and the session's timestamps\<close>

lemma importSession_exportSession:
  assumes "currentSession s = Some ses" "session_id ses \<noteq> []"
  shows "fst (importSession (exportSession s) s) = True
       \<and> currentSession (snd (importSession (exportSession s) s)) =
           Some (ses\<lparr>messages := map message_toJSON (messages ses),
                     created_at := new_Date (Some (date_toJSON (created_at ses))),
                     updated_at := new_Date (Some (date_toJSON (updated_at ses)))\<rparr>)"
  using assms
  by (simp add: importSession_def exportSession_def emit_store_def Let_def)

lemma updateMessage_updated_at:
  "map_option updated_at (currentSession (snd (updateMessage i u s))) =
     map_option updated_at (currentSession s)"
  by (simp add: updateMessage_def emit_store_def Let_def split: option.split)

lemma addMessage_updated_at:
  "map_option updated_at (currentSession (snd (addMessage e m s))) = Some (Date (now e))"
  by (cases "currentSession s")
     (simp_all add: addMessage_def emit_store_def initializeSession_def Let_def)

text \<open>
  Claim C5: \<open>importSession(exportSession())\<close> returns true and reproduces an equal
  message list and session id. On the store after one \<open>typing_start\<close> frame the call
  returns true and the session id is the same, but the message list is not equal: the
  message's timestamp was a \<open>Date\<close> and is a string afterwards. \<open>importSession\<close>
  turns \<open>created_at\<close> and \<open>updated_at\<close> back into dates and not the timestamps of
  the messages.
\<close>

theorem import_export_message_timestamp_not_restored:
  "fst (importSession (exportSession store_after_stream) store_after_stream) = True
   \<and> map_option session_id (currentSession (snd (importSession (exportSession store_after_stream) store_after_stream)))
       = map_option session_id (currentSession store_after_stream)
   \<and> map timestamp (getMessages store_after_stream) = [DateObj (Date 1)]
   \<and> map timestamp (getMessages (snd (importSession (exportSession store_after_stream) store_after_stream)))
       = [IsoString 1]"
  by code_simp

text \<open>
  Claim C6: every message mutation bumps \<open>updated_at\<close>. \<open>addMessage\<close> does, at
  time 1 here; \<open>updateMessage\<close> on the existing message \<open>msg_1b\<close> changes the
  message and leaves \<open>updated_at\<close> at the time of the earlier \<open>addMessage\<close>,
  whenever it is called, and so does \<open>addCitationsToMessage\<close>.
\<close>

theorem updateMessage_leaves_updated_at:
  "map_option updated_at (currentSession store_after_stream) = Some (Date 1)
   \<and> fst (updateMessage ''msg_1b'' (no_updates\<lparr>u_content := Some ''edited''\<rparr>) store_after_stream) \<noteq> None
   \<and> map_option updated_at (currentSession (snd (updateMessage ''msg_1b''
         (no_updates\<lparr>u_content := Some ''edited''\<rparr>) store_after_stream))) = Some (Date 1)
   \<and> map content (getMessages (snd (updateMessage ''msg_1b''
         (no_updates\<lparr>u_content := Some ''edited''\<rparr>) store_after_stream))) = [''edited'']
   \<and> map_option updated_at (currentSession (addCitationsToMessage ''msg_1b'' [] store_after_stream)) = Some (Date 1)"
  by code_simp

subsection \<open>De-duplication\<close>

lemma dedup_step_cases:
  "dedup_step t acc c = acc @ [c] \<or> dedup_step t acc c = acc"
  by (simp add: dedup_step_def Let_def)

lemma dedup_foldl_subseq:
  "\<exists>ys. foldl (dedup_step t) acc cs = acc @ ys \<and> subseq ys cs"
proof (induction cs arbitrary: acc)
  case Nil
  show ?case by simp
next
  case (Cons c cs)
  from Cons.IH [of "dedup_step t acc c"] obtain ys where
    ys: "foldl (dedup_step t) (dedup_step t acc c) cs = dedup_step t acc c @ ys" "subseq ys cs"
    by blast
  from dedup_step_cases [of t acc c] show ?case
  proof
    assume "dedup_step t acc c = acc @ [c]"
    with ys have "foldl (dedup_step t) acc (c # cs) = acc @ (c # ys)" "subseq (c # ys) (c # cs)"
      by simp_all
    then show ?thesis by blast
  next
    assume "dedup_step t acc c = acc"
    with ys have "foldl (dedup_step t) acc (c # cs) = acc @ ys" "subseq ys (c # cs)"
      by (simp_all add: list_emb_Cons)
    then show ?thesis by blast
  qed
qed

lemma no_duplicate_after_step:
  "no_duplicate_after t acc \<Longrightarrow> no_duplicate_after t (dedup_step t acc c)"
  by (auto simp: no_duplicate_after_def dedup_step_def Let_def sorted_wrt_append list_ex_iff)

lemma no_duplicate_after_foldl:
  "no_duplicate_after t acc \<Longrightarrow> no_duplicate_after t (foldl (dedup_step t) acc cs)"
  by (induction cs arbitrary: acc) (simp_all add: no_duplicate_after_step)

lemma dedup_foldl_fixed:
  "no_duplicate_after t (acc @ xs) \<Longrightarrow> foldl (dedup_step t) acc xs = acc @ xs"
proof (induction xs arbitrary: acc)
  case Nil
  show ?case by simp
next
  case (Cons x xs)
  from Cons.prems have "dedup_step t acc x = acc @ [x]"
    by (auto simp: no_duplicate_after_def dedup_step_def Let_def sorted_wrt_append list_ex_iff)
  moreover from Cons.prems have "no_duplicate_after t ((acc @ [x]) @ xs)" by simp
  ultimately show ?case using Cons.IH [of "acc @ [x]"] by simp
qed

text \<open>
  Claim C9. De-duplication is idempotent: for every citation array and every similarity
  threshold (also none, the default 0.8), \<open>deduplicateCitations\<close> applied to its own
  output returns that output; and the surviving citations are a subsequence of the
  input, so they appear in their original order.
\<close>

theorem deduplicateCitations_idempotent:
  "deduplicateCitations (deduplicateCitations cits t) t = deduplicateCitations cits t
   \<and> subseq (deduplicateCitations cits t) cits"
proof -
  define th where "th = (case t of None \<Rightarrow> Finite 0.8 | Some r \<Rightarrow> r)"
  have d: "deduplicateCitations xs t = foldl (dedup_step th) [] xs" for xs
    by (simp add: deduplicateCitations_def th_def)
  have "no_duplicate_after th (foldl (dedup_step th) [] cits)"
    by (rule no_duplicate_after_foldl) (simp add: no_duplicate_after_def)
  then have "foldl (dedup_step th) [] (foldl (dedup_step th) [] cits) = foldl (dedup_step th) [] cits"
    using dedup_foldl_fixed [of th "[]"] by simp
  moreover from dedup_foldl_subseq [of th "[]" cits]
  have "subseq (foldl (dedup_step th) [] cits) cits" by auto
  ultimately show ?thesis by (simp add: d)
qed

theorem deduplicateCitations_idempotent_witness:
  "map cit_id (deduplicateCitations [cit_a1, cit_b1, cit_a2] None) = [''c1'', ''c2'']
   \<and> deduplicateCitations (deduplicateCitations [cit_a1, cit_b1, cit_a2] None) None =
       deduplicateCitations [cit_a1, cit_b1, cit_a2] None"
proof -
  have "map cit_id (deduplicateCitations [cit_a1, cit_b1, cit_a2] None) = [''c1'', ''c2'']"
    by code_simp
  with deduplicateCitations_idempotent [of "[cit_a1, cit_b1, cit_a2]" None] show ?thesis by blast
qed

subsection \<open>Sorting and the insertion-ordered map\<close>

lemma set_insert_before [simp]: "set (insert_before neg x ys) = insert x (set ys)"
  by (induction ys) auto

lemma mset_insert_before [simp]: "mset (insert_before neg x ys) = add_mset x (mset ys)"
  by (induction ys) auto

lemma mset_array_sort [simp]: "mset (array_sort neg xs) = mset xs"
  by (induction xs) (simp_all add: array_sort_def)

lemma set_array_sort [simp]: "set (array_sort neg xs) = set xs"
  by (induction xs) (simp_all add: array_sort_def)

lemma length_array_sort [simp]: "length (array_sort neg xs) = length xs"
  by (metis mset_array_sort size_mset)

lemma sorted_insert_before:
  fixes key :: "'a \<Rightarrow> 'k::linorder"
  assumes neg: "\<And>a b. neg a b \<longleftrightarrow> key b < key a"
  shows "sorted_wrt (\<lambda>a b. key b \<le> key a) ys \<Longrightarrow>
         sorted_wrt (\<lambda>a b. key b \<le> key a) (insert_before neg x ys)"
  by (induction ys) (auto simp: neg)

lemma sorted_array_sort:
  fixes key :: "'a \<Rightarrow> 'k::linorder"
  assumes neg: "\<And>a b. neg a b \<longleftrightarrow> key b < key a"
  shows "sorted_wrt (\<lambda>a b. key b \<le> key a) (array_sort neg xs)"
proof (induction xs)
  case Nil
  show ?case by (simp add: array_sort_def)
next
  case (Cons x xs)
  have "array_sort neg (x # xs) = insert_before neg x (array_sort neg xs)"
    by (simp add: array_sort_def)
  with Cons sorted_insert_before [of neg key, OF neg] show ?case by simp
qed

lemma filter_insert_before:
  fixes key :: "'a \<Rightarrow> 'k::linorder"
  assumes neg: "\<And>a b. neg a b \<longleftrightarrow> key b < key a"
  shows "filter (\<lambda>y. key y = k) (insert_before neg x ys) =
           (if key x = k then x # filter (\<lambda>y. key y = k) ys else filter (\<lambda>y. key y = k) ys)"
  by (induction ys) (auto simp: neg)

lemma array_sort_stable:
  fixes key :: "'a \<Rightarrow> 'k::linorder"
  assumes neg: "\<And>a b. neg a b \<longleftrightarrow> key b < key a"
  shows "filter (\<lambda>y. key y = k) (array_sort neg xs) = filter (\<lambda>y. key y = k) xs"
proof (induction xs)
  case Nil
  show ?case by (simp add: array_sort_def)
next
  case (Cons x xs)
  have "array_sort neg (x # xs) = insert_before neg x (array_sort neg xs)"
    by (simp add: array_sort_def)
  with Cons filter_insert_before [of neg key k, OF neg] show ?case by simp
qed

lemma compare_citations_neg_key: "compare_citations_neg a b \<longleftrightarrow> score b < score a"
  by (simp add: compare_citations_neg_def)

lemma compare_groups_neg_key: "compare_groups_neg a b \<longleftrightarrow> max_relevance b < max_relevance a"
  by (simp add: compare_groups_neg_def)

lemma map_of_keyed:
  "map_of (map (\<lambda>k. (k, g k)) ks) k = (if k \<in> set ks then Some (g k) else None)"
  by (induction ks) auto

lemma map_of_last: "k \<notin> fst ` set ps \<Longrightarrow> map_of (ps @ [(k, v)]) k = Some v"
  by (induction ps) auto

lemma map_set_absent: "k \<notin> fst ` set ps \<Longrightarrow> map_set k v ps = ps @ [(k, v)]"
  by (induction ps) auto

lemma map_set_last: "k \<notin> fst ` set ps \<Longrightarrow> map_set k v (ps @ [(k, w)]) = ps @ [(k, v)]"
  by (induction ps) auto

lemma map_set_keyed:
  "distinct ks \<Longrightarrow> k \<in> set ks \<Longrightarrow>
   map_set k v (map (\<lambda>j. (j, g j)) ks) = map (\<lambda>j. (j, if j = k then v else g j)) ks"
  by (induction ks) auto

lemma first_seen_snoc:
  "first_seen (xs @ [x]) = (if x \<in> set xs then first_seen xs else first_seen xs @ [x])"
  by (simp add: first_seen_def)

lemma set_first_seen [simp]: "set (first_seen xs) = set xs"
  by (simp add: first_seen_def)

lemma distinct_first_seen [simp]: "distinct (first_seen xs)"
  by (simp add: first_seen_def)

lemma members_group_snoc_other:
  "source_file_id c \<noteq> k \<Longrightarrow> members_group (cs @ [c]) k = members_group cs k"
  by (simp add: members_group_def)

lemma members_group_snoc_new:
  "source_file_id c \<notin> source_file_id ` set cs \<Longrightarrow>
   members_group (cs @ [c]) (source_file_id c) =
     \<lparr> g_source_file_id = source_file_id c, g_source_file_url = source_file_url c,
       g_source_file_name = source_file_name c, g_citations = [c], g_total_chunks = 1 \<rparr>"
proof -
  assume "source_file_id c \<notin> source_file_id ` set cs"
  then have "\<forall>x\<in>set cs. source_file_id x \<noteq> source_file_id c"
    by (metis imageI)
  then have "filter (\<lambda>x. source_file_id x = source_file_id c) cs = []"
    by (simp add: filter_empty_conv)
  then show ?thesis by (simp add: members_group_def)
qed

lemma members_group_snoc_old:
  assumes "source_file_id c \<in> source_file_id ` set cs"
  shows "members_group (cs @ [c]) (source_file_id c) =
     (members_group cs (source_file_id c))
       \<lparr>g_citations := g_citations (members_group cs (source_file_id c)) @ [c],
        g_total_chunks := g_total_chunks (members_group cs (source_file_id c)) + 1\<rparr>"
proof -
  from assms have "filter (\<lambda>x. source_file_id x = source_file_id c) cs \<noteq> []"
    by (auto simp: filter_empty_conv)
  then obtain c0 rest where "filter (\<lambda>x. source_file_id x = source_file_id c) cs = c0 # rest"
    by (cases "filter (\<lambda>x. source_file_id x = source_file_id c) cs") auto
  then show ?thesis by (simp add: members_group_def)
qed

lemma foldl_add_to_groups:
  "foldl add_to_groups [] cs =
     map (\<lambda>k. (k, members_group cs k)) (first_seen (map source_file_id cs))"
proof (induction cs rule: rev_induct)
  case Nil
  show ?case by (simp add: first_seen_def)
next
  case (snoc c cs)
  let ?K = "first_seen (map source_file_id cs)"
  let ?G = "map (\<lambda>k. (k, members_group cs k)) ?K"
  let ?key = "source_file_id c"
  show ?case
  proof (cases "?key \<in> source_file_id ` set cs")
    case True
    then have inK: "?key \<in> set ?K" by simp
    have "add_to_groups ?G c =
            map (\<lambda>j. (j, if j = ?key then members_group (cs @ [c]) ?key else members_group cs j)) ?K"
      using inK by (simp add: add_to_groups_def map_has_def map_of_keyed Let_def
          map_set_keyed members_group_snoc_old [OF True])
    also have "\<dots> = map (\<lambda>j. (j, members_group (cs @ [c]) j)) ?K"
      by (auto simp: members_group_snoc_other)
    finally have "add_to_groups ?G c = map (\<lambda>j. (j, members_group (cs @ [c]) j)) ?K" .
    then show ?thesis using True by (simp add: snoc first_seen_snoc)
  next
    case False
    then have notK: "?key \<notin> set ?K" by simp
    then have nf: "?key \<notin> fst ` set ?G" by (auto simp: image_iff)
    let ?new = "\<lparr> g_source_file_id = source_file_id c, g_source_file_url = source_file_url c,
                   g_source_file_name = source_file_name c, g_citations = [],
                   g_total_chunks = 0 \<rparr>"
    have m: "map_of (?G @ [(?key, ?new)]) ?key = Some ?new"
      by (rule map_of_last [OF nf])
    have a: "add_to_groups ?G c = ?G @ [(?key, members_group (cs @ [c]) ?key)]"
      using notK
      by (simp add: add_to_groups_def map_has_def map_of_keyed Let_def
          map_set_absent [OF nf] map_set_last [OF nf] m members_group_snoc_new [OF False]
          del: map_of_append)
    have b: "?G = map (\<lambda>j. (j, members_group (cs @ [c]) j)) ?K"
    proof -
      have "members_group (cs @ [c]) j = members_group cs j" if "j \<in> set ?K" for j
      proof -
        from that notK have "source_file_id c \<noteq> j" by auto
        then show ?thesis by (rule members_group_snoc_other)
      qed
      then show ?thesis by simp
    qed
    have "add_to_groups ?G c =
        map (\<lambda>j. (j, members_group (cs @ [c]) j)) ?K @ [(?key, members_group (cs @ [c]) ?key)]"
      unfolding b [symmetric] by (rule a)
    then show ?thesis using False by (simp add: snoc first_seen_snoc)
  qed
qed

subsection \<open>Grouping by source\<close>

lemma g_citations_members_group:
  "g_citations (members_group cits k) = filter (\<lambda>c. source_file_id c = k) cits"
  by (simp add: members_group_def Let_def split: list.split)

lemma g_source_file_id_members_group: "g_source_file_id (members_group cits k) = k"
  by (simp add: members_group_def Let_def split: list.split)

lemma groupCitationsBySource_eq:
  "groupCitationsBySource cits = array_sort compare_groups_neg (first_seen_groups cits)"
  by (simp add: groupCitationsBySource_def foldl_add_to_groups first_seen_groups_def Let_def o_def)

text \<open>
  Claim C8, as amended. \<open>groupCitationsBySource\<close> returns one group for each
  \<open>source_file_id\<close> of the input, sorted descending by the highest
  \<open>relevance_score\<close> of the group (absent as 0); groups with the same highest
  relevance stay in first-seen order of their sources: the result is the stable sort, by
  that comparator, of the groups in first-seen order. Inside each group the citations
  are those of the input with the group's \<open>source_file_id\<close>, sorted descending by
  \<open>relevance_score\<close> (absent as 0).
\<close>

theorem groupCitationsBySource_order:
  "groupCitationsBySource cits = array_sort compare_groups_neg (first_seen_groups cits)
   \<and> sorted_wrt (\<lambda>g h. max_relevance h \<le> max_relevance g) (groupCitationsBySource cits)
   \<and> (\<forall>k. filter (\<lambda>g. max_relevance g = k) (groupCitationsBySource cits) =
           filter (\<lambda>g. max_relevance g = k) (first_seen_groups cits))
   \<and> (\<forall>g\<in>set (groupCitationsBySource cits).
         sorted_wrt (\<lambda>a b. score b \<le> score a) (g_citations g)
         \<and> mset (g_citations g) = mset (filter (\<lambda>c. source_file_id c = g_source_file_id g) cits))"
proof (intro conjI allI ballI)
  show "groupCitationsBySource cits = array_sort compare_groups_neg (first_seen_groups cits)"
    by (rule groupCitationsBySource_eq)
  show "sorted_wrt (\<lambda>g h. max_relevance h \<le> max_relevance g) (groupCitationsBySource cits)"
    unfolding groupCitationsBySource_eq
    by (rule sorted_array_sort) (rule compare_groups_neg_key)
  show "filter (\<lambda>g. max_relevance g = k) (groupCitationsBySource cits) =
          filter (\<lambda>g. max_relevance g = k) (first_seen_groups cits)" for k
    unfolding groupCitationsBySource_eq
    by (rule array_sort_stable) (rule compare_groups_neg_key)
next
  fix g
  assume "g \<in> set (groupCitationsBySource cits)"
  then obtain k where g: "g = sort_group (members_group cits k)"
    by (auto simp: groupCitationsBySource_eq first_seen_groups_def)
  show "sorted_wrt (\<lambda>a b. score b \<le> score a) (g_citations g)"
    unfolding g sort_group_def
    using sorted_array_sort [of compare_citations_neg score, OF compare_citations_neg_key]
    by simp
  show "mset (g_citations g) = mset (filter (\<lambda>c. source_file_id c = g_source_file_id g) cits)"
    by (simp add: g sort_group_def g_citations_members_group g_source_file_id_members_group)
qed

text \<open>
  Claim C8, as stated, fails: source \<open>a\<close> is seen first, source \<open>b\<close> has the
  higher relevance, and the group of \<open>b\<close> is returned first.
\<close>

theorem groups_not_in_first_seen_order:
  "map g_source_file_id (groupCitationsBySource [cit_a1, cit_b1]) = [''b'', ''a'']
   \<and> first_seen (map source_file_id [cit_a1, cit_b1]) = [''a'', ''b'']"
  by code_simp

theorem groupCitationsBySource_order_witness:
  "map (\<lambda>g. (g_source_file_id g, map cit_id (g_citations g)))
          (groupCitationsBySource [cit_a1, cit_b1, cit_a2]) = [(''b'', [''c2'']), (''a'', [''c3'', ''c1''])]
   \<and> sorted_wrt (\<lambda>g h. max_relevance h \<le> max_relevance g) (groupCitationsBySource [cit_a1, cit_b1, cit_a2])
   \<and> list_all (\<lambda>g. sorted_wrt (\<lambda>a b. score b \<le> score a) (g_citations g))
        (groupCitationsBySource [cit_a1, cit_b1, cit_a2])"
proof -
  have "map (\<lambda>g. (g_source_file_id g, map cit_id (g_citations g)))
          (groupCitationsBySource [cit_a1, cit_b1, cit_a2]) = [(''b'', [''c2'']), (''a'', [''c3'', ''c1''])]"
    by code_simp
  with groupCitationsBySource_order [of "[cit_a1, cit_b1, cit_a2]"] show ?thesis
    unfolding list_all_iff by blast
qed

subsection \<open>Reconnection\<close>

lemma length_filter_update:
  "i < length xs \<Longrightarrow>
   length (filter P (xs[i := v])) + (if P (xs ! i) then 1 else 0) =
     length (filter P xs) + (if P v then 1 else 0)"
proof (induction xs arbitrary: i)
  case Nil
  then show ?case by simp
next
  case (Cons x xs)
  show ?case
  proof (cases i)
    case 0
    then show ?thesis by simp
  next
    case (Suc j)
    with Cons.prems have "j < length xs" by simp
    from Cons.IH [OF this] Suc show ?thesis by simp
  qed
qed

lemma live_sockets_update:
  "i < length (sockets c) \<Longrightarrow>
   live_sockets (c\<lparr>sockets := (sockets c)[i := v]\<rparr>) + (if sockets c ! i \<noteq> CLOSED then 1 else 0) =
     live_sockets c + (if v \<noteq> CLOSED then 1 else 0)"
  using length_filter_update [of i "sockets c" "\<lambda>st. st \<noteq> CLOSED" v]
  by (simp add: live_sockets_def)

lemma removeAll_only: "set ps \<subseteq> {t} \<Longrightarrow> removeAll t ps = []"
  by (induction ps) auto

lemma dispatch_connection:
  "dispatch e f c = Inr c1 \<Longrightarrow>
   sockets c1 = sockets c \<and> pendingTimers c1 = pendingTimers c \<and>
   reconnectTimer c1 = reconnectTimer c \<and>
   count_list (emitted c1) EvMaxReconnectAttemptsReached =
     count_list (emitted c) EvMaxReconnectAttemptsReached"
  by (cases f)
     (auto simp: dispatch_def handleMessageStart_def handleMessageChunk_def
        handleMessageComplete_def handleCitations_def handleError_def emit_client_def
        case_prod_unfold Let_def
        split: option.splits if_splits content_data.splits citations_data.splits)

lemma handleMessage_connection:
  "sockets (handleMessage e r c) = sockets c \<and>
   pendingTimers (handleMessage e r c) = pendingTimers c \<and>
   reconnectTimer (handleMessage e r c) = reconnectTimer c \<and>
   max_reached_count (handleMessage e r c) = max_reached_count c"
proof (cases r)
  case Unparsable_frame
  then show ?thesis by (simp add: handleMessage_def)
next
  case (Parsed f)
  show ?thesis
  proof (cases "dispatch e f c")
    case (Inl err)
    with Parsed show ?thesis by (simp add: handleMessage_def)
  next
    case (Inr c1)
    from dispatch_connection [OF Inr] Inr Parsed show ?thesis
      by (simp add: handleMessage_def emit_client_def max_reached_count_def)
  qed
qed

lemma single_connection_message:
  "single_connection c \<Longrightarrow> single_connection (handleMessage e r c)"
  using handleMessage_connection [of e r c]
  by (simp add: single_connection_def live_sockets_def)

lemma single_connection_error:
  "single_connection c \<Longrightarrow> single_connection (onerror c)"
  by (simp add: single_connection_def live_sockets_def onerror_def emit_client_def
      max_reached_count_def)

lemma single_connection_open:
  assumes "single_connection c" "i < length (sockets c)" "sockets c ! i = CONNECTING"
  shows "single_connection (onopen (c\<lparr>sockets := (sockets c)[i := OPEN]\<rparr>))"
proof -
  let ?c0 = "c\<lparr>sockets := (sockets c)[i := OPEN]\<rparr>"
  from live_sockets_update [OF assms(2), of OPEN] assms(3)
  have l: "live_sockets ?c0 = live_sockets c" by simp
  have "live_sockets (onopen ?c0) = live_sockets ?c0"
    "pendingTimers (onopen ?c0) = pendingTimers c"
    "reconnectTimer (onopen ?c0) = reconnectTimer c"
    "max_reached_count (onopen ?c0) = max_reached_count c"
    by (simp_all add: onopen_def emit_client_def live_sockets_def max_reached_count_def)
  with l assms(1) show ?thesis by (simp add: single_connection_def)
qed

lemma single_connection_disconnect:
  assumes "single_connection c"
  shows "single_connection (disconnect c)"
proof -
  have p: "pendingTimers (disconnect c) = []"
    using assms
    by (auto simp: disconnect_def cleanup_def Let_def single_connection_def removeAll_only
        split: option.splits)
  have m: "max_reached_count (disconnect c) = max_reached_count c"
    by (simp add: disconnect_def cleanup_def Let_def max_reached_count_def split: option.splits)
  have l: "live_sockets (disconnect c) = live_sockets c"
  proof (cases "ws c")
    case None
    then show ?thesis
      by (simp add: disconnect_def cleanup_def Let_def live_sockets_def split: option.splits)
  next
    case (Some i)
    show ?thesis
    proof (cases "i < length (sockets c) \<and> sockets c ! i = OPEN")
      case True
      with live_sockets_update [of i c CLOSING] have "live_sockets (c\<lparr>sockets := (sockets c)[i := CLOSING]\<rparr>) = live_sockets c"
        by simp
      with True Some show ?thesis
        by (simp add: disconnect_def cleanup_def Let_def live_sockets_def split: option.splits)
    next
      case False
      with Some show ?thesis
        by (auto simp: disconnect_def cleanup_def Let_def live_sockets_def split: option.splits)
    qed
  qed
  from p m l assms show ?thesis by (simp add: single_connection_def)
qed

lemma single_connection_close:
  assumes "single_connection c" "i < length (sockets c)" "sockets c ! i \<noteq> CLOSED"
  shows "single_connection (onclose (c\<lparr>sockets := (sockets c)[i := CLOSED]\<rparr>))"
proof -
  let ?c0 = "c\<lparr>sockets := (sockets c)[i := CLOSED]\<rparr>"
  from live_sockets_update [OF assms(2), of CLOSED] assms(3)
  have "live_sockets ?c0 + 1 = live_sockets c" by simp
  with assms(1) have l0: "live_sockets ?c0 = 0" and l1: "live_sockets c = 1"
    by (simp_all add: single_connection_def)
  from l1 assms(1) have p: "pendingTimers c = []" and m: "max_reached_count c = 0"
    by (auto simp: single_connection_def)
  let ?c1 = "emit_client EvDisconnected
               (cleanup (?c0\<lparr>stateManager := setConnectionState Disconnected (stateManager ?c0)\<rparr>))"
  have c1: "live_sockets ?c1 = 0" "pendingTimers ?c1 = []" "max_reached_count ?c1 = 0"
    "reconnectTimer ?c1 = None"
    using l0 p m
    by (simp_all add: emit_client_def cleanup_def live_sockets_def max_reached_count_def
        split: option.splits)
  have "single_connection ?c1" using c1 by (simp add: single_connection_def)
  moreover have "single_connection (scheduleReconnect ?c1)"
    using c1
    by (simp add: single_connection_def scheduleReconnect_def emit_client_def
        live_sockets_def max_reached_count_def)
  ultimately show ?thesis by (simp add: onclose_def Let_def)
qed

lemma single_connection_timeout:
  assumes "single_connection c" "t \<in> set (pendingTimers c)"
  shows "single_connection (reconnect_timeout b (c\<lparr>pendingTimers := removeAll t (pendingTimers c)\<rparr>))"
proof -
  from assms have ne: "pendingTimers c \<noteq> []" by auto
  with assms(1) have l: "live_sockets c = 0" and m: "max_reached_count c = 0"
    by (auto simp: single_connection_def)
  from assms have "set (pendingTimers c) \<subseteq> {t}"
    by (cases "reconnectTimer c") (auto simp: single_connection_def)
  then have r: "removeAll t (pendingTimers c) = []" by (rule removeAll_only)
  let ?c0 = "c\<lparr>pendingTimers := removeAll t (pendingTimers c)\<rparr>"
  have c0: "live_sockets ?c0 = 0" "pendingTimers ?c0 = []" "max_reached_count ?c0 = 0"
    using l m r by (simp_all add: live_sockets_def max_reached_count_def)
  then have "single_connection ?c0" by (simp add: single_connection_def)
  moreover have "single_connection (connect b ?c0)"
    using c0
    by (simp add: single_connection_def connect_def Let_def live_sockets_def
        max_reached_count_def)
  ultimately show ?thesis by (simp add: reconnect_timeout_def)
qed

lemma single_connection_step:
  assumes "single_connection c" "enabled a c" "\<not> is_connect_call a"
  shows "single_connection (step a c)"
proof (cases a)
  case (CallConnect b)
  with assms(3) show ?thesis by simp
next
  case CallDisconnect
  with assms show ?thesis by (simp add: single_connection_disconnect)
next
  case (SocketOpens i)
  with assms show ?thesis by (simp add: single_connection_open)
next
  case (SocketErrors i)
  with assms show ?thesis by (simp add: single_connection_error)
next
  case (SocketCloses i)
  with assms show ?thesis by (simp add: single_connection_close)
next
  case (SocketMessage i e r)
  with assms show ?thesis by (simp add: single_connection_message)
next
  case (TimeoutFires t b)
  with assms show ?thesis by (simp add: single_connection_timeout)
qed

lemma single_connection_run:
  assumes "single_connection c" "run acts c = Some c'" "\<forall>a\<in>set acts. \<not> is_connect_call a"
  shows "single_connection c'"
  using assms
proof (induction acts arbitrary: c)
  case Nil
  then show ?case by simp
next
  case (Cons a acts)
  from Cons.prems(2) have en: "enabled a c" and r: "run acts (step a c) = Some c'"
    by (auto split: if_splits)
  from Cons.prems have "single_connection (step a c)"
    by (intro single_connection_step en) simp_all
  from Cons.IH [OF this r] Cons.prems(3) show ?case by simp
qed

lemma single_connection_first_connect:
  "single_connection (connect b (new_WebSocketClient cfg sm))"
  by (simp add: single_connection_def connect_def Let_def live_sockets_def
      max_reached_count_def new_WebSocketClient_def)

lemma single_connection_quiet:
  assumes "single_connection c" "max_reached_count c = 1" "enabled a c"
  shows "is_caller_action a"
proof -
  from assms(1,2) have l: "live_sockets c = 0" and p: "pendingTimers c = []"
    by (simp_all add: single_connection_def)
  from l have "\<forall>st\<in>set (sockets c). st = CLOSED"
    by (simp add: live_sockets_def filter_empty_conv)
  then have "\<forall>i<length (sockets c). sockets c ! i = CLOSED" by simp
  with p assms(3) show ?thesis by (cases a) auto
qed

lemma run_append:
  "run (xs @ ys) c = (case run xs c of None \<Rightarrow> None | Some c1 \<Rightarrow> run ys c1)"
  by (induction xs arbitrary: c) simp_all

lemma max_reached_count_disconnect:
  "max_reached_count (disconnect c) = max_reached_count c"
  by (simp add: disconnect_def cleanup_def Let_def max_reached_count_def split: option.splits)

lemma max_reached_count_onclose:
  assumes "\<not> isIntentionallyClosed c" "maxReconnectAttempts (config c) \<le> reconnectAttempts c"
  shows "max_reached_count (onclose (c\<lparr>sockets := xs\<rparr>)) = max_reached_count c + 1"
  using assms
  by (simp add: onclose_def Let_def cleanup_def scheduleReconnect_def emit_client_def
      max_reached_count_def split: option.splits)

lemma after_max_reached:
  assumes "single_connection c" "max_reached_count c = 1" "run rest c = Some c'"
    and "\<forall>a\<in>set rest. \<not> is_connect_call a"
  shows "max_reached_count c' = 1 \<and> list_all (\<lambda>a. a = CallDisconnect) rest"
  using assms
proof (induction rest arbitrary: c)
  case Nil
  then show ?case by simp
next
  case (Cons a rest)
  from Cons.prems(3) have en: "enabled a c" and r: "run rest (step a c) = Some c'"
    by (auto split: if_splits)
  from single_connection_quiet [OF Cons.prems(1,2) en] have "is_caller_action a" .
  moreover from Cons.prems(4) have "\<not> is_connect_call a" by simp
  ultimately have a: "a = CallDisconnect" by (cases a) simp_all
  have "single_connection (step a c)" "max_reached_count (step a c) = 1"
    using Cons.prems(1,2) by (simp_all add: a single_connection_disconnect
        max_reached_count_disconnect)
  from Cons.IH [OF this r] Cons.prems(4) a show ?case by simp
qed

text \<open>
  Claim C7, as amended. In every execution that begins with one \<open>connect()\<close> call on
  a new client and has no further \<open>connect()\<close> call: when a socket closes while the
  client is not intentionally closed and the reconnect attempts have reached the
  configured maximum, \<open>maxReconnectAttemptsReached\<close> is emitted, exactly once in the
  whole execution, and all that follows that close are \<open>disconnect()\<close> calls, so no
  automatic \<open>connect()\<close> occurs until the caller calls \<open>connect()\<close>. In no such
  execution is the event emitted more than once, and once it has been emitted no socket
  event and no timeout is possible any more, only a call by the caller.
\<close>

theorem max_reconnect_emitted_once:
  assumes "run (CallConnect b # acts) (new_WebSocketClient cfg sm) = Some c"
    and "\<forall>a\<in>set acts. \<not> is_connect_call a"
  shows "max_reached_count c \<le> 1
       \<and> (max_reached_count c = 1 \<longrightarrow> (\<forall>a. enabled a c \<longrightarrow> is_caller_action a))
       \<and> (\<forall>before i rest c1.
             acts = before @ SocketCloses i # rest
             \<and> run (CallConnect b # before) (new_WebSocketClient cfg sm) = Some c1
             \<and> \<not> isIntentionallyClosed c1
             \<and> maxReconnectAttempts (config c1) \<le> reconnectAttempts c1
             \<longrightarrow> max_reached_count c = 1 \<and> list_all (\<lambda>a. a = CallDisconnect) rest)"
proof -
  let ?init = "connect b (new_WebSocketClient cfg sm)"
  from assms(1) have run: "run acts ?init = Some c" by simp
  with single_connection_first_connect have sc: "single_connection c"
    using assms(2) by (rule single_connection_run)
  then have le: "max_reached_count c \<le> 1" by (simp add: single_connection_def)
  have quiet: "max_reached_count c = 1 \<longrightarrow> (\<forall>a. enabled a c \<longrightarrow> is_caller_action a)"
    using sc single_connection_quiet by blast
  have lower: "max_reached_count c = 1 \<and> list_all (\<lambda>a. a = CallDisconnect) rest"
    if dec: "acts = before @ SocketCloses i # rest"
      and r1: "run (CallConnect b # before) (new_WebSocketClient cfg sm) = Some c1"
      and ni: "\<not> isIntentionallyClosed c1"
      and ex: "maxReconnectAttempts (config c1) \<le> reconnectAttempts c1"
    for before i rest c1
  proof -
    from r1 have rb: "run before ?init = Some c1" by simp
    from assms(2) dec have nb: "\<forall>a\<in>set before. \<not> is_connect_call a"
      and nr: "\<forall>a\<in>set rest. \<not> is_connect_call a" by simp_all
    from single_connection_first_connect rb nb have sc1: "single_connection c1"
      by (rule single_connection_run)
    from run rb have "run (SocketCloses i # rest) c1 = Some c"
      by (simp add: dec run_append)
    then have en: "enabled (SocketCloses i) c1"
      and rr: "run rest (step (SocketCloses i) c1) = Some c"
      by (auto split: if_splits)
    let ?c2 = "step (SocketCloses i) c1"
    have sc2: "single_connection ?c2"
      using sc1 en by (rule single_connection_step) simp
    have "max_reached_count ?c2 = max_reached_count c1 + 1"
      using ni ex by (simp add: max_reached_count_onclose)
    moreover from sc2 have "max_reached_count ?c2 \<le> 1" by (simp add: single_connection_def)
    ultimately have "max_reached_count ?c2 = 1" by simp
    with sc2 show ?thesis using rr nr by (rule after_max_reached)
  qed
  from le quiet lower show ?thesis by blast
qed

text \<open>
  Claim C7, as stated, fails: with two live sockets, after the reconnect attempts are
  used up each socket's close emits \<open>maxReconnectAttemptsReached\<close>; the event is
  emitted twice.
\<close>

theorem max_reconnect_emitted_twice:
  "map_option max_reached_count (run reconnects_fail_two_sockets fresh_client) = Some 2"
  by code_simp

theorem max_reconnect_emitted_once_witness:
  "list_all (\<lambda>a. \<not> is_connect_call a) reconnects_fail
   \<and> reconnects_fail = reconnects_before_close @ SocketCloses 3 # [CallDisconnect]
   \<and> (\<exists>c1. run (CallConnect False # reconnects_before_close)
              (new_WebSocketClient config_max3 (new_StateManager env0)) = Some c1
          \<and> \<not> isIntentionallyClosed c1 \<and> reconnectAttempts c1 = 3
          \<and> maxReconnectAttempts (config c1) = 3)
   \<and> (\<exists>c. run (CallConnect False # reconnects_fail)
              (new_WebSocketClient config_max3 (new_StateManager env0)) = Some c
          \<and> max_reached_count c = 1 \<and> length (sockets c) = 4
          \<and> (\<forall>a. enabled a c \<longrightarrow> is_caller_action a))"
proof -
  let ?init = "new_WebSocketClient config_max3 (new_StateManager env0)"
  have h: "\<forall>a\<in>set reconnects_fail. \<not> is_connect_call a"
    by (simp add: reconnects_fail_def reconnects_before_close_def)
  have d: "reconnects_fail = reconnects_before_close @ SocketCloses 3 # [CallDisconnect]"
    by (simp add: reconnects_fail_def)
  have "case run (CallConnect False # reconnects_before_close) ?init of
          None \<Rightarrow> False
        | Some c1 \<Rightarrow> \<not> isIntentionallyClosed c1 \<and> reconnectAttempts c1 = 3
                     \<and> maxReconnectAttempts (config c1) = 3"
    by code_simp
  then obtain c1 where c1: "run (CallConnect False # reconnects_before_close) ?init = Some c1"
      "\<not> isIntentionallyClosed c1" "reconnectAttempts c1 = 3"
      "maxReconnectAttempts (config c1) = 3"
    by (auto split: option.splits)
  have "case run (CallConnect False # reconnects_fail) ?init of
          None \<Rightarrow> False | Some c \<Rightarrow> length (sockets c) = 4"
    by code_simp
  then obtain c where c: "run (CallConnect False # reconnects_fail) ?init = Some c"
      "length (sockets c) = 4"
    by (auto split: option.splits)
  from c1 have ex: "maxReconnectAttempts (config c1) \<le> reconnectAttempts c1" by simp
  from max_reconnect_emitted_once [OF c(1) h] d c1(1,2) ex
  have m: "max_reached_count c = 1" by blast
  with max_reconnect_emitted_once [OF c(1) h]
  have q: "\<forall>a. enabled a c \<longrightarrow> is_caller_action a" by blast
  from h d c1 c m q show ?thesis unfolding list_all_iff by blast
qed

end
